theory Spec2Isabelle
  imports Main "HOL-Library.Word" "HOL-Library.Stream"
begin

section \<open>The SYTC radar frame parser of \<^verbatim>\<open>demo.py\<close> and \<^verbatim>\<open>models.py\<close>\<close>

text \<open>
  The development embeds \<^verbatim>\<open>MircoParser\<close> (\<^verbatim>\<open>read_exact\<close>, \<^verbatim>\<open>find_start\<close>,
  \<^verbatim>\<open>parse_frame_from_serial\<close>) together with the Pydantic models it constructs.
  Wire bytes are \<open>8 word\<close>; the fields of the models are Python integers, hence \<open>int\<close>.
\<close>

subsection \<open>The environment: serial port and wall clock\<close>

text \<open>
  \<^verbatim>\<open>ser.read\<close> and \<^verbatim>\<open>time.time\<close> belong to pyserial and to the standard library.
  They are modelled by a port that owns the (infinite) sequence of what the line will
  deliver, one slot after the other: in a slot either one byte arrives or the port's read
  timeout passes without a byte. The clock counts slots; \<^verbatim>\<open>time.sleep\<close> lets one more
  tick pass without consuming input. Timeouts are given in ticks of this clock.
\<close>

type_synonym byte = "8 word"

datatype event = Byte byte | Idle

record port =
  feed :: "event stream"
  clock :: nat

text \<open>
  \<^verbatim>\<open>ser.read(size)\<close>: bytes are collected until \<open>size\<close> of them are there or the read
  timeout passes; what was collected so far is returned (possibly nothing).
\<close>

fun ser_read :: "nat \<Rightarrow> port \<Rightarrow> byte list \<times> port" where
  "ser_read 0 ser = ([], ser)"
| "ser_read (Suc n) ser =
     (case shd (feed ser) of
        Idle \<Rightarrow> ([], ser\<lparr>feed := stl (feed ser), clock := clock ser + 1\<rparr>)
      | Byte b \<Rightarrow>
          (case ser_read n (ser\<lparr>feed := stl (feed ser), clock := clock ser + 1\<rparr>) of
             (bs, ser') \<Rightarrow> (b # bs, ser')))"

definition time_sleep :: "port \<Rightarrow> port" where
  "time_sleep ser = ser\<lparr>clock := clock ser + 1\<rparr>"

subsection \<open>Python slices\<close>

text \<open>\<^verbatim>\<open>xs[i:j]\<close>: a negative bound counts from the end, and bounds are clipped to the list.\<close>

definition slice_bound :: "nat \<Rightarrow> int \<Rightarrow> nat" where
  "slice_bound n i = (if i < 0 then nat (max 0 (int n + i)) else min n (nat i))"

definition py_slice :: "'a list \<Rightarrow> int \<Rightarrow> int \<Rightarrow> 'a list" where
  "py_slice xs i j =
     (let lo = slice_bound (length xs) i; hi = slice_bound (length xs) j
      in take (hi - lo) (drop lo xs))"

subsection \<open>The models of \<^verbatim>\<open>models.py\<close>\<close>

datatype error = ValidationError

record MircoHead =
  start_signal :: "int list"
  data_length :: int
  mode :: int
  time :: "int list"
  num_TLV :: int
  work_con :: int
  reserve :: "int list"

record MircoBody =
  tlv_signal :: int
  target_distance :: int
  target_azimuth :: int
  current_status :: int
  respiration_value :: int
  heart_rate_value :: int
  respiration_curve :: "int list"
  heart_rate_curve :: "int list"

record MircoCheck =
  crc :: "int list"
  zw :: "int list"

record MircoData =
  header :: MircoHead
  bodies :: "MircoBody list"
  check :: MircoCheck

text \<open>
  Constructing a Pydantic model validates the \<^verbatim>\<open>Field\<close> constraints and raises
  \<^verbatim>\<open>ValidationError\<close> when one is violated.
\<close>

definition new_MircoHead ::
  "int list \<Rightarrow> int \<Rightarrow> int \<Rightarrow> int list \<Rightarrow> int \<Rightarrow> int \<Rightarrow> int list \<Rightarrow> error + MircoHead" where
  "new_MircoHead ss dl m t n w r =
     (if length ss = 4
         \<and> 0x00 \<le> dl \<and> dl \<le> 0xFF
         \<and> 0x00 \<le> m \<and> m \<le> 0xFF
         \<and> length t = 2
         \<and> 0x00 \<le> n \<and> n \<le> 0xFF
         \<and> 0x01 \<le> w \<and> w \<le> 0x03
         \<and> length r = 2
      then Inr \<lparr>start_signal = ss, data_length = dl, mode = m, time = t, num_TLV = n,
                work_con = w, reserve = r\<rparr>
      else Inl ValidationError)"

definition new_MircoBody ::
  "int \<Rightarrow> int \<Rightarrow> int \<Rightarrow> int \<Rightarrow> int \<Rightarrow> int \<Rightarrow> int list \<Rightarrow> int list \<Rightarrow> error + MircoBody" where
  "new_MircoBody tlv dist az st rv hv rc hc =
     (if 0 \<le> tlv \<and> tlv \<le> 2
         \<and> 0 \<le> dist \<and> dist \<le> 256
         \<and> -127 \<le> az \<and> az \<le> 128
         \<and> (st = 0x01 \<or> st = 0x02)
         \<and> length rc = 20
         \<and> length hc = 20
      then Inr \<lparr>tlv_signal = tlv, target_distance = dist, target_azimuth = az,
                current_status = st, respiration_value = rv, heart_rate_value = hv,
                respiration_curve = rc, heart_rate_curve = hc\<rparr>
      else Inl ValidationError)"

definition new_MircoCheck :: "int list \<Rightarrow> int list \<Rightarrow> error + MircoCheck" where
  "new_MircoCheck c z =
     (if length c = 2 then Inr \<lparr>crc = c, zw = z\<rparr> else Inl ValidationError)"

subsection \<open>\<^verbatim>\<open>MircoParser\<close>\<close>

definition START_SEQ :: "byte list" where
  "START_SEQ = [0x53, 0x59, 0x54, 0x43]"

definition BODY_SIZE :: nat where
  "BODY_SIZE = 46"

text \<open>
  \<^verbatim>\<open>read_exact\<close>: the \<^verbatim>\<open>while len(buf) < size\<close> loop. With \<^verbatim>\<open>timeout=None\<close> it has no
  exit on a silent line, so the loop is a partial function; \<open>None\<close> is "does not return".
\<close>

partial_function (option) read_exact_loop ::
  "nat \<Rightarrow> nat option \<Rightarrow> nat \<Rightarrow> byte list \<Rightarrow> port \<Rightarrow> (byte list \<times> port) option" where
  "read_exact_loop sz timeout start buf ser =
     (if length buf < sz then
        (case ser_read (sz - length buf) ser of
           (chunk, ser') \<Rightarrow>
             if chunk \<noteq> [] then read_exact_loop sz timeout start (buf @ chunk) ser'
             else if timeout \<noteq> None \<and> clock ser' - start > the timeout then Some (buf, ser')
             else read_exact_loop sz timeout start buf (time_sleep ser'))
      else Some (buf, ser))"

definition read_exact :: "port \<Rightarrow> nat \<Rightarrow> nat option \<Rightarrow> (byte list \<times> port) option" where
  "read_exact ser sz timeout = read_exact_loop sz timeout (clock ser) [] ser"

text \<open>
  \<^verbatim>\<open>find_start\<close>: the \<^verbatim>\<open>while True\<close> loop over a sliding window of at most four bytes.
\<close>

partial_function (option) find_start_loop ::
  "nat \<Rightarrow> nat \<Rightarrow> byte list \<Rightarrow> port \<Rightarrow> (bool \<times> port) option" where
  "find_start_loop timeout start_time window ser =
     (case ser_read 1 ser of
        (b, ser') \<Rightarrow>
          if b = [] then
            (if clock ser' - start_time > timeout then Some (False, ser')
             else find_start_loop timeout start_time window ser')
          else
            (let window1 = window @ b;
                 window2 = (if length window1 > length START_SEQ then tl window1 else window1)
             in if window2 = START_SEQ then Some (True, ser')
                else find_start_loop timeout start_time window2 ser'))"

definition find_start :: "port \<Rightarrow> nat \<Rightarrow> (bool \<times> port) option" where
  "find_start ser timeout = find_start_loop timeout (clock ser) [] ser"

text \<open>One target record: lines 113 to 131 of \<^verbatim>\<open>demo.py\<close>.\<close>

definition decode_body :: "byte list \<Rightarrow> error + MircoBody" where
  "decode_body chunk =
     (let tlv_signal' = uint (chunk ! 0);
          target_distance' = uint (chunk ! 1);
          target_azimuth' = uint (chunk ! 2);
          current_status' = uint (chunk ! 3);
          respiration_value' = uint (chunk ! 4);
          heart_rate_value' = uint (chunk ! 5);
          respiration_curve' = map uint (py_slice chunk (-44) (-24));
          heart_rate_curve' = map uint (py_slice chunk (-24) (-4))
      in new_MircoBody
           (if tlv_signal' = 0 then 1 else tlv_signal')
           target_distance'
           (if target_azimuth' \<le> 127 then target_azimuth' else target_azimuth' - 256)
           current_status'
           respiration_value'
           heart_rate_value'
           respiration_curve'
           heart_rate_curve')"

text \<open>
  The \<^verbatim>\<open>for i in range(num_TLV)\<close> loop. \<open>Inr None\<close> is the loop's \<^verbatim>\<open>return None\<close>,
  \<open>Inl\<close> an exception that leaves it.
\<close>

fun decode_bodies ::
  "nat \<Rightarrow> nat \<Rightarrow> byte list \<Rightarrow> MircoBody list \<Rightarrow> error + MircoBody list option" where
  "decode_bodies 0 offset bodies_bytes bodies' = Inr (Some bodies')"
| "decode_bodies (Suc n) offset bodies_bytes bodies' =
     (let chunk = py_slice bodies_bytes (int offset) (int (offset + BODY_SIZE))
      in if length chunk < BODY_SIZE then Inr None
         else (case decode_body chunk of
                 Inl e \<Rightarrow> Inl e
               | Inr body \<Rightarrow> decode_bodies n (offset + BODY_SIZE) bodies_bytes (bodies' @ [body])))"

text \<open>The dictionary returned next to the frame.\<close>

datatype pyval = PyInt int | PyList "int list"

type_synonym info = "(string \<times> pyval) list"

text \<open>
  \<^verbatim>\<open>parse_frame_from_serial\<close>. The outer \<open>option\<close> is termination, \<open>Inl\<close> an exception
  that escapes, \<open>Inr None\<close> the value \<^verbatim>\<open>None\<close> and \<open>Inr (Some (data, d))\<close> the returned tuple.
\<close>

definition parse_frame_from_serial ::
  "port \<Rightarrow> nat \<Rightarrow> ((error + (MircoData \<times> info) option) \<times> port) option" where
  "parse_frame_from_serial ser timeout =
     (case find_start ser timeout of
        None \<Rightarrow> None
      | Some (found, ser1) \<Rightarrow>
        if \<not> found then Some (Inr None, ser1)
        else
        (case read_exact ser1 (1 + 1 + 2 + 1 + 1 + 2) (Some timeout) of
           None \<Rightarrow> None
         | Some (header_remain, ser2) \<Rightarrow>
           if length header_remain < 8 then Some (Inr None, ser2)
           else
           (let data_length' = uint (header_remain ! 0);
                mode' = uint (header_remain ! 1);
                time_field = map uint (py_slice header_remain 2 4);
                num_TLV' = uint (header_remain ! 4);
                work_con' = uint (header_remain ! 5);
                reserve' = map uint (py_slice header_remain 6 8);
                expected_bodies_bytes = nat num_TLV' * BODY_SIZE
            in case read_exact ser2 expected_bodies_bytes (Some timeout) of
                 None \<Rightarrow> None
               | Some (bodies_bytes, ser3) \<Rightarrow>
                 if length bodies_bytes < expected_bodies_bytes then Some (Inr None, ser3)
                 else
                 (case decode_bodies (nat num_TLV') 0 bodies_bytes [] of
                    Inl e \<Rightarrow> Some (Inl e, ser3)
                  | Inr None \<Rightarrow> Some (Inr None, ser3)
                  | Inr (Some bodies') \<Rightarrow>
                    (case read_exact ser3 4 (Some timeout) of
                       None \<Rightarrow> None
                     | Some (check_bytes, ser4) \<Rightarrow>
                       if length check_bytes < 4 then Some (Inr None, ser4)
                       else
                       (let crc' = [uint (check_bytes ! 0), uint (check_bytes ! 1)];
                            zw' = [uint (check_bytes ! 2), uint (check_bytes ! 3)]
                        in case new_MircoHead (map uint START_SEQ) data_length' mode' time_field
                                  num_TLV' work_con' reserve' of
                             Inl e \<Rightarrow> Some (Inl e, ser4)
                           | Inr header' \<Rightarrow>
                             (case new_MircoCheck crc' zw' of
                                Inl e \<Rightarrow> Some (Inl e, ser4)
                              | Inr check' \<Rightarrow>
                                Some (Inr (Some
                                  (\<lparr>header = header', bodies = bodies', check = check'\<rparr>,
                                   [(''data_length'', PyInt data_length'),
                                    (''mode'', PyInt mode'),
                                    (''time_minutes'',
                                       PyInt (time_field ! 0 + push_bit 8 (time_field ! 1))),
                                    (''num_targets'', PyInt num_TLV'),
                                    (''work_status'', PyInt work_con'),
                                    (''reserve'', PyList reserve')])), ser4))))))))"

subsection \<open>Concrete lines\<close>

text \<open>
  A line that delivers the given bytes back to back and is silent from then on, and the
  pieces of the frame of the specification's concrete scenario.
\<close>

definition line :: "byte list \<Rightarrow> port" where
  "line bs = \<lparr>feed = map Byte bs @- sconst Idle, clock = 0\<rparr>"

definition scenario_header :: "byte list" where
  "scenario_header = [0x2E, 0x01, 0x00, 0x00, 0x01, 0x01, 0x00, 0x00]"

definition scenario_record :: "byte list" where
  "scenario_record = [0, 10, 200, 1, 70, 75] @ replicate 40 0"

definition scenario_footer :: "byte list" where
  "scenario_footer = [0xAB, 0xCD, 0xEE, 0xEE]"

definition scenario_line :: port where
  "scenario_line = line (START_SEQ @ scenario_header @ scenario_record @ scenario_footer)"


definition ramp_record :: "byte list" where
  "ramp_record = [0, 10, 5, 1, 70, 75] @
     [1, 2, 3, 4, 5, 6, 7, 8, 9, 10, 11, 12, 13, 14, 15, 16, 17, 18, 19, 20] @
     [21, 22, 23, 24, 25, 26, 27, 28, 29, 30, 31, 32, 33, 34, 35, 36, 37, 38, 39, 40]"

text \<open>A line on which the byte \<open>00\<close> arrives in every slot, without end.\<close>

definition noise_line :: port where
  "noise_line = \<lparr>feed = sconst (Byte 0), clock = 0\<rparr>"

section \<open>Properties of the parser\<close>

subsection \<open>Reading from the port\<close>

lemma ser_read_props:
  "ser_read n ser = (chunk, ser') \<Longrightarrow>
     length chunk \<le> n \<and> clock ser \<le> clock ser' \<and> (chunk = [] \<and> 0 < n \<longrightarrow> clock ser' = clock ser + 1)"
proof (induction n arbitrary: ser chunk ser')
  case 0
  then show ?case by simp
next
  case (Suc n)
  show ?case
  proof (cases "shd (feed ser)")
    case Idle
    with Suc.prems show ?thesis by auto
  next
    case (Byte b)
    obtain bs s1 where r: "ser_read n (ser\<lparr>feed := stl (feed ser), clock := clock ser + 1\<rparr>) = (bs, s1)"
      by (cases "ser_read n (ser\<lparr>feed := stl (feed ser), clock := clock ser + 1\<rparr>)")
    from Suc.IH [OF r] Suc.prems Byte r show ?thesis by auto
  qed
qed


lemma read_exact_loop_total:
  "\<exists>r. read_exact_loop sz (Some t) start buf ser = Some r"
proof (induction "(sz - length buf) + (start + t + 1 - clock ser)" arbitrary: buf ser rule: less_induct)
  case less
  show ?case
  proof (cases "length buf < sz")
    case False
    then show ?thesis by (subst read_exact_loop.simps) simp
  next
    case True
    obtain chunk ser' where r: "ser_read (sz - length buf) ser = (chunk, ser')"
      by (cases "ser_read (sz - length buf) ser")
    from ser_read_props [OF r] have p1: "length chunk \<le> sz - length buf"
      and p2: "clock ser \<le> clock ser'" and p3: "chunk = [] \<Longrightarrow> 0 < sz - length buf \<Longrightarrow> clock ser' = clock ser + 1"
      by simp_all
    note p = p1 p2
    have unf: "read_exact_loop sz (Some t) start buf ser =
       (if chunk \<noteq> [] then read_exact_loop sz (Some t) start (buf @ chunk) ser'
             else if clock ser' - start > t then Some (buf, ser')
             else read_exact_loop sz (Some t) start buf (time_sleep ser'))"
      using True r by (subst read_exact_loop.simps) simp
    show ?thesis
    proof (cases "chunk = []")
      case False
      with p True have "sz - length (buf @ chunk) < sz - length buf" by (cases chunk) auto
      moreover from p have "start + t + 1 - clock ser' \<le> start + t + 1 - clock ser" by simp
      ultimately have "(sz - length (buf @ chunk)) + (start + t + 1 - clock ser')
          < (sz - length buf) + (start + t + 1 - clock ser)" by (rule add_less_le_mono)
      from less [OF this] False show ?thesis
        unfolding unf by simp
    next
      case e: True
      show ?thesis
      proof (cases "clock ser' - start > t")
        case True
        with e show ?thesis unfolding unf by simp
      next
        case False
        with p3 e \<open>length buf < sz\<close>
        have "(sz - length buf) + (start + t + 1 - clock (time_sleep ser'))
          < (sz - length buf) + (start + t + 1 - clock ser)" by (auto simp add: time_sleep_def)
        from less [OF this] False e show ?thesis
          unfolding unf by simp
      qed
    qed
  qed
qed


lemma ser_read_bytes:
  "n \<le> length bs \<Longrightarrow> feed ser = map Byte bs @- s \<Longrightarrow>
   ser_read n ser = (take n bs, ser\<lparr>feed := map Byte (drop n bs) @- s, clock := clock ser + n\<rparr>)"
proof (induction n arbitrary: bs ser)
  case 0
  then show ?case by simp
next
  case (Suc n)
  then obtain b bs' where bs: "bs = b # bs'" by (cases bs) auto
  let ?ser = "ser\<lparr>feed := stl (feed ser), clock := clock ser + 1\<rparr>"
  from Suc.prems bs have "n \<le> length bs'" "feed ?ser = map Byte bs' @- s" by simp_all
  from Suc.IH [OF this] Suc.prems bs show ?case by simp
qed

lemma ser_read_short:
  "length bs < n \<Longrightarrow> feed ser = map Byte bs @- (Idle ## s) \<Longrightarrow>
   ser_read n ser = (bs, ser\<lparr>feed := s, clock := clock ser + length bs + 1\<rparr>)"
proof (induction bs arbitrary: n ser)
  case Nil
  then obtain m where "n = Suc m" by (cases n) auto
  with Nil show ?case by simp
next
  case (Cons b bs)
  then obtain m where n: "n = Suc m" by (cases n) auto
  let ?ser = "ser\<lparr>feed := stl (feed ser), clock := clock ser + 1\<rparr>"
  from Cons.prems n have "length bs < m" "feed ?ser = map Byte bs @- (Idle ## s)" by simp_all
  from Cons.IH [OF this] Cons.prems n show ?case by simp
qed


lemma read_exact_loop_enough:
  assumes "length buf \<le> sz" and "sz - length buf \<le> length bs" and "feed ser = map Byte bs @- s"
  shows "read_exact_loop sz timeout start buf ser =
     Some (buf @ take (sz - length buf) bs,
           ser\<lparr>feed := map Byte (drop (sz - length buf) bs) @- s,
               clock := clock ser + (sz - length buf)\<rparr>)"
proof (cases "length buf < sz")
  case False
  with assms show ?thesis by (subst read_exact_loop.simps) simp
next
  case True
  let ?n = "sz - length buf"
  let ?ser = "ser\<lparr>feed := map Byte (drop ?n bs) @- s, clock := clock ser + ?n\<rparr>"
  have r: "ser_read ?n ser = (take ?n bs, ?ser)"
    using assms by (intro ser_read_bytes)
  from True assms have ne: "take ?n bs \<noteq> []" by (cases bs) auto
  from True assms have len: "length (buf @ take ?n bs) = sz" by simp
  have "read_exact_loop sz timeout start buf ser =
        read_exact_loop sz timeout start (buf @ take ?n bs) ?ser"
    using True r ne by (subst read_exact_loop.simps) simp
  also have "\<dots> = Some (buf @ take ?n bs, ?ser)"
    using len by (subst read_exact_loop.simps) simp
  finally show ?thesis .
qed

lemma read_exact_enough:
  assumes "sz \<le> length bs" and "feed ser = map Byte bs @- s"
  shows "read_exact ser sz timeout =
     Some (take sz bs, ser\<lparr>feed := map Byte (drop sz bs) @- s, clock := clock ser + sz\<rparr>)"
  using read_exact_loop_enough [of "[]" sz bs ser s timeout "clock ser"] assms
  by (simp add: read_exact_def)

lemma read_exact_total: "\<exists>r. read_exact ser sz (Some t) = Some r"
  unfolding read_exact_def by (rule read_exact_loop_total)


subsection \<open>The marker search\<close>

lemma find_start_loop_byte:
  assumes "feed ser = Byte b ## s"
  shows "find_start_loop timeout start_time window ser =
     (let ser' = ser\<lparr>feed := s, clock := clock ser + 1\<rparr>;
          window1 = window @ [b];
          window2 = (if length window1 > length START_SEQ then tl window1 else window1)
      in if window2 = START_SEQ then Some (True, ser')
         else find_start_loop timeout start_time window2 ser')"
  using assms by (subst find_start_loop.simps) (simp add: Let_def)

lemma find_start_loop_idle:
  assumes "feed ser = Idle ## s"
  shows "find_start_loop timeout start_time window ser =
     (let ser' = ser\<lparr>feed := s, clock := clock ser + 1\<rparr>
      in if clock ser' - start_time > timeout then Some (False, ser')
         else find_start_loop timeout start_time window ser')"
  using assms by (subst find_start_loop.simps) (simp add: Let_def)

lemma find_start_marker:
  assumes "feed ser = map Byte START_SEQ @- s"
  shows "find_start ser timeout = Some (True, ser\<lparr>feed := s, clock := clock ser + 4\<rparr>)"
proof -
  let ?s1 = "ser\<lparr>feed := Byte 0x59 ## Byte 0x54 ## Byte 0x43 ## s, clock := clock ser + 1\<rparr>"
  let ?s2 = "ser\<lparr>feed := Byte 0x54 ## Byte 0x43 ## s, clock := clock ser + 2\<rparr>"
  let ?s3 = "ser\<lparr>feed := Byte 0x43 ## s, clock := clock ser + 3\<rparr>"
  have "find_start ser timeout = find_start_loop timeout (clock ser) [0x53] ?s1"
    unfolding find_start_def using assms
    by (subst find_start_loop_byte [where b = "0x53" and s = "Byte 0x59 ## Byte 0x54 ## Byte 0x43 ## s"])
       (simp_all add: START_SEQ_def eval_nat_numeral)
  also have "\<dots> = find_start_loop timeout (clock ser) [0x53, 0x59] ?s2"
    by (subst find_start_loop_byte [where b = "0x59" and s = "Byte 0x54 ## Byte 0x43 ## s"])
       (simp_all add: START_SEQ_def eval_nat_numeral)
  also have "\<dots> = find_start_loop timeout (clock ser) [0x53, 0x59, 0x54] ?s3"
    by (subst find_start_loop_byte [where b = "0x54" and s = "Byte 0x43 ## s"])
       (simp_all add: START_SEQ_def eval_nat_numeral)
  also have "\<dots> = Some (True, ser\<lparr>feed := s, clock := clock ser + 4\<rparr>)"
    by (subst find_start_loop_byte [where b = "0x43" and s = s])
       (simp_all add: START_SEQ_def eval_nat_numeral)
  finally show ?thesis .
qed

lemma find_start_loop_noise:
  assumes "find_start_loop timeout start_time window ser = Some r"
  shows "\<not> (feed ser = sconst (Byte 0) \<and> set window \<subseteq> {0})"
proof (rule find_start_loop.raw_induct [OF _ assms], goal_cases)
  case (1 f timeout start_time window ser r)
  show ?case
  proof
    assume a: "feed ser = sconst (Byte 0) \<and> set window \<subseteq> {0}"
    let ?ser = "ser\<lparr>feed := sconst (Byte 0), clock := clock ser + 1\<rparr>"
    let ?w1 = "window @ [0]"
    let ?w2 = "if length ?w1 > length START_SEQ then tl ?w1 else ?w1"
    from a have sr: "ser_read 1 ser = ([0], ?ser)" by simp
    from a have w2: "set ?w2 \<subseteq> {0}" by (cases window) auto
    then have ne: "?w2 \<noteq> START_SEQ" by (auto simp: START_SEQ_def)
    from 1(2) ne have "f timeout start_time ?w2 ?ser = Some r"
      unfolding sr by (simp add: Let_def)
    from 1(1) [OF this] w2 show False by (simp add: id_def)
  qed
qed

lemma find_start_noise: "feed ser = sconst (Byte 0) \<Longrightarrow> find_start ser timeout = None"
  using find_start_loop_noise [of timeout "clock ser" "[]" ser]
  by (cases "find_start ser timeout") (auto simp: find_start_def)


subsection \<open>\<^verbatim>\<open>read_exact\<close> never returns more than it was asked for\<close>

lemma read_exact_loop_length:
  assumes "read_exact_loop sz timeout start buf ser = Some r"
  shows "length buf \<le> sz \<longrightarrow> length (fst r) \<le> sz"
proof (rule read_exact_loop.raw_induct [OF _ assms], goal_cases)
  case (1 f sz timeout start buf ser r)
  show ?case
  proof
    assume le: "length buf \<le> sz"
    show "length (fst r) \<le> sz"
    proof (cases "length buf < sz")
      case False
      with 1(2) le show ?thesis by auto
    next
      case True
      obtain chunk ser' where r: "ser_read (sz - length buf) ser = (chunk, ser')"
        by (cases "ser_read (sz - length buf) ser")
      from ser_read_props [OF r] have "length chunk \<le> sz - length buf" by simp
      with True have l: "length (buf @ chunk) \<le> sz" by simp
      show ?thesis
      proof (cases "chunk = []")
        case False
        with 1(2) True r have "f sz timeout start (buf @ chunk) ser' = Some r" by simp
        from 1(1) [OF this] l show ?thesis by simp
      next
        case e: True
        show ?thesis
        proof (cases "timeout \<noteq> None \<and> clock ser' - start > the timeout")
          case True
          with 1(2) \<open>length buf < sz\<close> r e have "r = (buf, ser')" by auto
          with le show ?thesis by simp
        next
          case False
          with 1(2) \<open>length buf < sz\<close> r e have "f sz timeout start buf (time_sleep ser') = Some r"
            by auto
          from 1(1) [OF this] le show ?thesis by simp
        qed
      qed
    qed
  qed
qed

lemma read_exact_length: "read_exact ser sz timeout = Some (bs, ser') \<Longrightarrow> length bs \<le> sz"
  using read_exact_loop_length [of sz timeout "clock ser" "[]" ser "(bs, ser')"]
  by (simp add: read_exact_def)


subsection \<open>Slices and the decoding of one record\<close>

lemma slice_nat: "py_slice xs (int i) (int j) = take (j - i) (drop i xs)"
proof (cases "i \<le> length xs")
  case True
  then show ?thesis
    by (cases "j \<le> length xs") (simp_all add: py_slice_def slice_bound_def Let_def min_def)
next
  case False
  then show ?thesis by (simp add: py_slice_def slice_bound_def Let_def)
qed

lemma slice_curves:
  assumes "length chunk = 46"
  shows "py_slice chunk (-44) (-24) = take 20 (drop 2 chunk)"
    and "py_slice chunk (-24) (-4) = take 20 (drop 22 chunk)"
  using assms by (simp_all add: py_slice_def slice_bound_def Let_def)

lemma slice_header:
  assumes "length h = 8"
  shows "py_slice h 2 4 = [h ! 2, h ! 3]" and "py_slice h 6 8 = [h ! 6, h ! 7]"
proof -
  from assms obtain a b c d e f g i where "h = [a, b, c, d, e, f, g, i]"
    by (auto simp: length_Suc_conv eval_nat_numeral)
  then show "py_slice h 2 4 = [h ! 2, h ! 3]" and "py_slice h 6 8 = [h ! 6, h ! 7]"
    by (simp_all add: py_slice_def slice_bound_def Let_def)
qed

lemma decode_body_eq:
  assumes "length chunk = 46"
  shows "decode_body chunk =
     (if uint (chunk ! 0) \<le> 2 \<and> uint (chunk ! 2) \<noteq> 128 \<and> (chunk ! 3 = 1 \<or> chunk ! 3 = 2)
      then Inr \<lparr>tlv_signal = (if chunk ! 0 = 0 then 1 else uint (chunk ! 0)),
                target_distance = uint (chunk ! 1),
                target_azimuth = (if uint (chunk ! 2) \<le> 127 then uint (chunk ! 2)
                                  else uint (chunk ! 2) - 256),
                current_status = uint (chunk ! 3),
                respiration_value = uint (chunk ! 4),
                heart_rate_value = uint (chunk ! 5),
                respiration_curve = map uint (take 20 (drop 2 chunk)),
                heart_rate_curve = map uint (take 20 (drop 22 chunk))\<rparr>
      else Inl ValidationError)"
proof -
  have b: "uint w \<le> 255" "- 127 \<le> uint w" "uint w \<le> 256" for w :: byte
  proof -
    have "0 \<le> uint w" by simp
    then show "- 127 \<le> uint w" by linarith
    from uint_bounded [of w] show "uint w \<le> 255" "uint w \<le> 256" by simp_all
  qed
  have s: "uint w = 1 \<longleftrightarrow> w = 1" "uint w = 2 \<longleftrightarrow> w = 2" "uint w = 0 \<longleftrightarrow> w = 0" for w :: byte
    by (simp_all add: word_uint_eq_iff)
  show ?thesis
    using b [of "chunk ! 1"] b [of "chunk ! 2"] b [of "chunk ! 0"] b [of "chunk ! Suc 0"]
    unfolding decode_body_def Let_def new_MircoBody_def slice_curves [OF assms]
    by (auto simp: assms s)
qed


subsection \<open>The loop over the records\<close>

lemma decode_bodies_step:
  "decode_bodies (Suc n) off bb acc =
     (if length bb < off + 46 then Inr None
      else case decode_body (take 46 (drop off bb)) of
             Inl e \<Rightarrow> Inl e
           | Inr body \<Rightarrow> decode_bodies n (off + 46) bb (acc @ [body]))"
proof -
  have sl: "py_slice bb (int off) (int (off + BODY_SIZE)) = take 46 (drop off bb)"
    unfolding slice_nat by (simp add: BODY_SIZE_def)
  have "length (take 46 (drop off bb)) < 46 \<longleftrightarrow> length bb < off + 46" by auto
  then show ?thesis
    unfolding decode_bodies.simps sl Let_def unfolding BODY_SIZE_def by simp
qed

lemma decode_bodies_SomeD:
  "decode_bodies n off bb acc = Inr (Some bs) \<Longrightarrow>
   \<exists>new. bs = acc @ new \<and> length new = n \<and>
     (\<forall>k<n. decode_body (take 46 (drop (off + k * 46) bb)) = Inr (new ! k))"
proof (induction n arbitrary: off acc)
  case 0
  then show ?case by simp
next
  case (Suc n)
  from Suc.prems have len: "off + 46 \<le> length bb"
    unfolding decode_bodies_step by (auto split: if_splits)
  from Suc.prems len obtain b where b: "decode_body (take 46 (drop off bb)) = Inr b"
    and rest: "decode_bodies n (off + 46) bb (acc @ [b]) = Inr (Some bs)"
    unfolding decode_bodies_step by (auto split: if_splits sum.splits)
  from Suc.IH [OF rest] obtain new where new: "bs = (acc @ [b]) @ new" "length new = n"
    "\<forall>k<n. decode_body (take 46 (drop (off + 46 + k * 46) bb)) = Inr (new ! k)"
    by blast
  have "\<forall>k<Suc n. decode_body (take 46 (drop (off + k * 46) bb)) = Inr ((b # new) ! k)"
  proof (intro allI impI)
    fix k assume "k < Suc n"
    show "decode_body (take 46 (drop (off + k * 46) bb)) = Inr ((b # new) ! k)"
    proof (cases k)
      case 0
      with b show ?thesis by simp
    next
      case (Suc j)
      with \<open>k < Suc n\<close> new(3) have "decode_body (take 46 (drop (off + 46 + j * 46) bb)) = Inr (new ! j)"
        by simp
      with Suc show ?thesis by (simp add: add.assoc)
    qed
  qed
  with new show ?case by (intro exI [of _ "b # new"]) simp
qed

lemma decode_bodies_not_None:
  "off + n * 46 \<le> length bb \<Longrightarrow> decode_bodies n off bb acc \<noteq> Inr None"
proof (induction n arbitrary: off acc)
  case 0
  then show ?case by simp
next
  case (Suc n)
  then have "off + 46 + n * 46 \<le> length bb" by simp
  from Suc.IH [OF this] Suc.prems show ?case
    unfolding decode_bodies_step by (auto split: sum.splits)
qed

lemma decode_bodies_okI:
  "off + n * 46 \<le> length bb \<Longrightarrow>
   (\<forall>k<n. \<exists>b. decode_body (take 46 (drop (off + k * 46) bb)) = Inr b) \<Longrightarrow>
   \<exists>bs. decode_bodies n off bb acc = Inr (Some bs)"
proof (induction n arbitrary: off acc)
  case 0
  then show ?case by simp
next
  case (Suc n)
  from Suc.prems(2) obtain b where b: "decode_body (take 46 (drop off bb)) = Inr b"
    by fastforce
  have len: "off + 46 + n * 46 \<le> length bb" using Suc.prems(1) by simp
  have "\<forall>k<n. \<exists>b. decode_body (take 46 (drop (off + 46 + k * 46) bb)) = Inr b"
  proof (intro allI impI)
    fix k assume "k < n"
    then have "Suc k < Suc n" by simp
    with Suc.prems(2) have "\<exists>b. decode_body (take 46 (drop (off + Suc k * 46) bb)) = Inr b"
      by blast
    then show "\<exists>b. decode_body (take 46 (drop (off + 46 + k * 46) bb)) = Inr b"
      by (simp add: add.assoc)
  qed
  from Suc.IH [OF len this, of "acc @ [b]"] b len show ?case
    unfolding decode_bodies_step by simp
qed

lemma decode_bodies_errI:
  "off + n * 46 \<le> length bb \<Longrightarrow> k < n \<Longrightarrow>
   decode_body (take 46 (drop (off + k * 46) bb)) = Inl e \<Longrightarrow>
   decode_bodies n off bb acc = Inl ValidationError"
proof (induction n arbitrary: off acc k)
  case 0
  then show ?case by simp
next
  case (Suc n)
  have len: "off + 46 + n * 46 \<le> length bb" using Suc.prems(1) by simp
  show ?case
  proof (cases "decode_body (take 46 (drop off bb))")
    case (Inl e')
    with len show ?thesis unfolding decode_bodies_step by (cases e') simp
  next
    case (Inr b)
    with Suc.prems(3) obtain j where j: "k = Suc j" by (cases k) auto
    with Suc.prems have "j < n" "decode_body (take 46 (drop (off + 46 + j * 46) bb)) = Inl e"
      by (simp_all add: add.assoc)
    from Suc.IH [OF len this] Inr len show ?thesis
      unfolding decode_bodies_step by simp
  qed
qed


subsection \<open>The stages of \<^verbatim>\<open>parse_frame_from_serial\<close>\<close>

lemma header_size: "(1 + 1 + 2 + 1 + 1 + 2 :: nat) = 8"
  by simp

lemmas parse_unfold = parse_frame_from_serial_def [unfolded header_size]

lemma parse_SomeD:
  assumes "parse_frame_from_serial ser t = Some (Inr (Some (d, i)), ser')"
  shows "\<exists>ser1 hdr ser2 bb ser3 cb.
     find_start ser t = Some (True, ser1) \<and>
     read_exact ser1 8 (Some t) = Some (hdr, ser2) \<and> length hdr = 8 \<and>
     read_exact ser2 (unat (hdr ! 4) * 46) (Some t) = Some (bb, ser3) \<and>
     length bb = unat (hdr ! 4) * 46 \<and>
     decode_bodies (unat (hdr ! 4)) 0 bb [] = Inr (Some (bodies d)) \<and>
     read_exact ser3 4 (Some t) = Some (cb, ser') \<and> length cb = 4 \<and>
     new_MircoHead (map uint START_SEQ) (uint (hdr ! 0)) (uint (hdr ! 1))
       [uint (hdr ! 2), uint (hdr ! 3)] (uint (hdr ! 4)) (uint (hdr ! 5))
       [uint (hdr ! 6), uint (hdr ! 7)] = Inr (header d) \<and>
     check d = \<lparr>crc = [uint (cb ! 0), uint (cb ! 1)], zw = [uint (cb ! 2), uint (cb ! 3)]\<rparr> \<and>
     i = [(''data_length'', PyInt (uint (hdr ! 0))),
          (''mode'', PyInt (uint (hdr ! 1))),
          (''time_minutes'', PyInt (uint (hdr ! 2) + push_bit 8 (uint (hdr ! 3)))),
          (''num_targets'', PyInt (uint (hdr ! 4))),
          (''work_status'', PyInt (uint (hdr ! 5))),
          (''reserve'', PyList [uint (hdr ! 6), uint (hdr ! 7)])]"
proof -
  from assms obtain ser1 where fs: "find_start ser t = Some (True, ser1)"
    unfolding parse_unfold
    by (cases "find_start ser t") (auto split: if_splits)
  obtain hdr ser2 where r1: "read_exact ser1 8 (Some t) = Some (hdr, ser2)"
    using read_exact_total [of ser1 8 t] by auto
  have l1: "length hdr = 8"
  proof (rule ccontr)
    assume "length hdr \<noteq> 8"
    with read_exact_length [OF r1] have "length hdr < 8" by simp
    with assms fs r1 show False unfolding parse_unfold by simp
  qed
  note sh = slice_header [OF l1]
  let ?k = "unat (hdr ! 4)"
  obtain bb ser3 where r2: "read_exact ser2 (?k * 46) (Some t) = Some (bb, ser3)"
    using read_exact_total [of ser2 "?k * 46" t] by auto
  have l2: "length bb = ?k * 46"
  proof (rule ccontr)
    assume "length bb \<noteq> ?k * 46"
    with read_exact_length [OF r2] have "length bb < ?k * 46" by simp
    with assms fs r1 l1 r2 show False
      unfolding parse_unfold by (simp add: BODY_SIZE_def Let_def)
  qed
  from assms fs r1 l1 r2 l2 obtain bs where db: "decode_bodies ?k 0 bb [] = Inr (Some bs)"
    unfolding parse_unfold
    by (auto simp: BODY_SIZE_def Let_def split: sum.splits option.splits)
  obtain cb ser4 where r3: "read_exact ser3 4 (Some t) = Some (cb, ser4)"
    using read_exact_total [of ser3 4 t] by auto
  have l3: "length cb = 4"
  proof (rule ccontr)
    assume "length cb \<noteq> 4"
    with read_exact_length [OF r3] have "length cb < 4" by simp
    with assms fs r1 l1 r2 l2 db r3 show False
      unfolding parse_unfold by (simp add: BODY_SIZE_def Let_def)
  qed
  from assms fs r1 l1 r2 l2 db r3 l3 show ?thesis
    unfolding parse_unfold
    by (auto simp: BODY_SIZE_def Let_def sh new_MircoCheck_def split: sum.splits)
qed


lemma parse_diverges: "find_start ser t = None \<Longrightarrow> parse_frame_from_serial ser t = None"
  unfolding parse_unfold by simp

lemma parse_not_found:
  "find_start ser t = Some (False, ser1) \<Longrightarrow> parse_frame_from_serial ser t = Some (Inr None, ser1)"
  unfolding parse_unfold by simp

lemma parse_header_short:
  assumes "find_start ser t = Some (True, ser1)"
    and "read_exact ser1 8 (Some t) = Some (hdr, ser2)" and "length hdr < 8"
  shows "parse_frame_from_serial ser t = Some (Inr None, ser2)"
  using assms unfolding parse_unfold by simp

lemma parse_bodies_short:
  assumes "find_start ser t = Some (True, ser1)"
    and "read_exact ser1 8 (Some t) = Some (hdr, ser2)" and "length hdr = 8"
    and "read_exact ser2 (unat (hdr ! 4) * 46) (Some t) = Some (bb, ser3)"
    and "length bb < unat (hdr ! 4) * 46"
  shows "parse_frame_from_serial ser t = Some (Inr None, ser3)"
  using assms unfolding parse_unfold by (simp add: BODY_SIZE_def Let_def)

lemma parse_bodies_error:
  assumes "find_start ser t = Some (True, ser1)"
    and "read_exact ser1 8 (Some t) = Some (hdr, ser2)" and "length hdr = 8"
    and "read_exact ser2 (unat (hdr ! 4) * 46) (Some t) = Some (bb, ser3)"
    and "length bb = unat (hdr ! 4) * 46"
    and "decode_bodies (unat (hdr ! 4)) 0 bb [] = Inl e"
  shows "parse_frame_from_serial ser t = Some (Inl e, ser3)"
  using assms unfolding parse_unfold by (simp add: BODY_SIZE_def Let_def)

lemma parse_footer_short:
  assumes "find_start ser t = Some (True, ser1)"
    and "read_exact ser1 8 (Some t) = Some (hdr, ser2)" and "length hdr = 8"
    and "read_exact ser2 (unat (hdr ! 4) * 46) (Some t) = Some (bb, ser3)"
    and "length bb = unat (hdr ! 4) * 46"
    and "decode_bodies (unat (hdr ! 4)) 0 bb [] = Inr (Some bs)"
    and "read_exact ser3 4 (Some t) = Some (cb, ser4)" and "length cb < 4"
  shows "parse_frame_from_serial ser t = Some (Inr None, ser4)"
  using assms unfolding parse_unfold by (simp add: BODY_SIZE_def Let_def)

lemma parse_header_error:
  assumes "find_start ser t = Some (True, ser1)"
    and "read_exact ser1 8 (Some t) = Some (hdr, ser2)" and "length hdr = 8"
    and "read_exact ser2 (unat (hdr ! 4) * 46) (Some t) = Some (bb, ser3)"
    and "length bb = unat (hdr ! 4) * 46"
    and "decode_bodies (unat (hdr ! 4)) 0 bb [] = Inr (Some bs)"
    and "read_exact ser3 4 (Some t) = Some (cb, ser4)" and "length cb = 4"
    and "\<not> (1 \<le> uint (hdr ! 5) \<and> uint (hdr ! 5) \<le> 3)"
  shows "parse_frame_from_serial ser t = Some (Inl ValidationError, ser4)"
  using assms unfolding parse_unfold
  by (auto simp add: BODY_SIZE_def Let_def new_MircoHead_def)

lemma parse_success:
  assumes "find_start ser t = Some (True, ser1)"
    and "read_exact ser1 8 (Some t) = Some (hdr, ser2)" and "length hdr = 8"
    and "read_exact ser2 (unat (hdr ! 4) * 46) (Some t) = Some (bb, ser3)"
    and "length bb = unat (hdr ! 4) * 46"
    and "decode_bodies (unat (hdr ! 4)) 0 bb [] = Inr (Some bs)"
    and "read_exact ser3 4 (Some t) = Some (cb, ser4)" and "length cb = 4"
    and "1 \<le> uint (hdr ! 5)" and "uint (hdr ! 5) \<le> 3"
  shows "parse_frame_from_serial ser t =
     Some (Inr (Some
       (\<lparr>header = \<lparr>start_signal = [0x53, 0x59, 0x54, 0x43], data_length = uint (hdr ! 0),
                    mode = uint (hdr ! 1), time = [uint (hdr ! 2), uint (hdr ! 3)],
                    num_TLV = uint (hdr ! 4), work_con = uint (hdr ! 5),
                    reserve = [uint (hdr ! 6), uint (hdr ! 7)]\<rparr>,
         bodies = bs,
         check = \<lparr>crc = [uint (cb ! 0), uint (cb ! 1)], zw = [uint (cb ! 2), uint (cb ! 3)]\<rparr>\<rparr>,
        [(''data_length'', PyInt (uint (hdr ! 0))),
         (''mode'', PyInt (uint (hdr ! 1))),
         (''time_minutes'', PyInt (uint (hdr ! 2) + push_bit 8 (uint (hdr ! 3)))),
         (''num_targets'', PyInt (uint (hdr ! 4))),
         (''work_status'', PyInt (uint (hdr ! 5))),
         (''reserve'', PyList [uint (hdr ! 6), uint (hdr ! 7)])])), ser4)"
proof -
  have b: "uint w \<le> 255" for w :: byte using uint_bounded [of w] by simp
  show ?thesis
    using assms b [of "hdr ! 0"] b [of "hdr ! 1"] b [of "hdr ! 4"] unfolding parse_unfold
    by (simp add: BODY_SIZE_def Let_def new_MircoHead_def new_MircoCheck_def START_SEQ_def
        slice_header)
qed

subsection \<open>Lines that deliver a frame, and lines that fall silent\<close>

lemma read_exact_prefix:
  assumes "feed ser = map Byte (xs @ ys) @- s" and "length xs = n"
  shows "read_exact ser n timeout =
     Some (xs, ser\<lparr>feed := map Byte ys @- s, clock := clock ser + n\<rparr>)"
  using read_exact_enough [of n "xs @ ys" ser s timeout] assms by simp


lemma read_exact_loop_idles:
  "feed ser = replicate n Idle @- s \<Longrightarrow> length buf < sz \<Longrightarrow> 0 < n \<Longrightarrow>
   start + t < clock ser + n \<Longrightarrow>
   \<exists>ser'. read_exact_loop sz (Some t) start buf ser = Some (buf, ser')"
proof (induction n arbitrary: ser)
  case 0
  then show ?case by simp
next
  case (Suc n)
  let ?ser = "ser\<lparr>feed := replicate n Idle @- s, clock := clock ser + 1\<rparr>"
  from Suc.prems obtain m where m: "sz - length buf = Suc m" by (cases "sz - length buf") auto
  from Suc.prems have r: "ser_read (sz - length buf) ser = ([], ?ser)"
    unfolding m by simp
  have unf: "read_exact_loop sz (Some t) start buf ser =
       (if clock ?ser - start > t then Some (buf, ?ser)
        else read_exact_loop sz (Some t) start buf (time_sleep ?ser))"
    using Suc.prems r by (subst read_exact_loop.simps) simp
  show ?case
  proof (cases "clock ?ser - start > t")
    case True
    then show ?thesis unfolding unf by simp
  next
    case False
    with Suc.prems have "0 < n" "start + t < clock (time_sleep ?ser) + n"
      by (auto simp: time_sleep_def)
    moreover have "feed (time_sleep ?ser) = replicate n Idle @- s" by (simp add: time_sleep_def)
    ultimately have "\<exists>ser'. read_exact_loop sz (Some t) start buf (time_sleep ?ser) = Some (buf, ser')"
      using Suc.prems(2) by (intro Suc.IH)
    with False show ?thesis unfolding unf by simp
  qed
qed

lemma read_exact_short:
  assumes "length bs < sz" and "feed ser = map Byte bs @- (replicate n Idle @- s)"
    and "t + 2 \<le> n"
  shows "\<exists>ser'. read_exact ser sz (Some t) = Some (bs, ser')"
proof -
  from assms(3) obtain m where n: "n = Suc m" and m: "0 < m" "t < m" by (cases n) auto
  let ?ser = "ser\<lparr>feed := replicate m Idle @- s, clock := clock ser + length bs + 1\<rparr>"
  from assms(2) have "feed ser = map Byte bs @- (Idle ## (replicate m Idle @- s))"
    by (simp add: n)
  with assms(1) have r: "ser_read sz ser = (bs, ?ser)" by (rule ser_read_short)
  have f: "feed ?ser = replicate m Idle @- s" by simp
  show ?thesis
  proof (cases "bs = []")
    case False
    then have "read_exact ser sz (Some t) = read_exact_loop sz (Some t) (clock ser) bs ?ser"
      unfolding read_exact_def using assms(1) r by (subst read_exact_loop.simps) simp
    moreover from m have "clock ser + t < clock ?ser + m" by simp
    from read_exact_loop_idles [OF f assms(1) m(1) this]
    have "\<exists>ser'. read_exact_loop sz (Some t) (clock ser) bs ?ser = Some (bs, ser')" .
    ultimately show ?thesis by simp
  next
    case True
    show ?thesis
    proof (cases "clock ?ser - clock ser > t")
      case t: True
      have "read_exact ser sz (Some t) = Some (bs, ?ser)"
        unfolding read_exact_def using assms(1) r True t by (subst read_exact_loop.simps) simp
      then show ?thesis by simp
    next
      case t: False
      have "read_exact ser sz (Some t) = read_exact_loop sz (Some t) (clock ser) bs (time_sleep ?ser)"
        unfolding read_exact_def using assms(1) r True t by (subst read_exact_loop.simps) simp
      moreover have "feed (time_sleep ?ser) = replicate m Idle @- s" by (simp add: time_sleep_def)
      moreover from m have "clock ser + t < clock (time_sleep ?ser) + m" by (simp add: time_sleep_def)
      from read_exact_loop_idles [OF calculation(2) assms(1) m(1) this]
      have "\<exists>ser'. read_exact_loop sz (Some t) (clock ser) bs (time_sleep ?ser) = Some (bs, ser')" .
      ultimately show ?thesis by simp
    qed
  qed
qed


lemma parse_complete_bodies_error:
  assumes fs: "find_start ser t = Some (True, ser1)"
    and feed: "feed ser1 = map Byte (hdr @ bb) @- s"
    and lh: "length hdr = 8" and lb: "length bb = unat (hdr ! 4) * 46"
    and j: "j < unat (hdr ! 4)"
    and bad: "decode_body (take 46 (drop (j * 46) bb)) = Inl e"
  shows "parse_frame_from_serial ser t =
     Some (Inl ValidationError,
           ser1\<lparr>feed := s, clock := clock ser1 + (8 + unat (hdr ! 4) * 46)\<rparr>)"
proof -
  let ?k = "unat (hdr ! 4)"
  let ?ser2 = "ser1\<lparr>feed := map Byte bb @- s, clock := clock ser1 + 8\<rparr>"
  let ?ser3 = "?ser2\<lparr>feed := map Byte [] @- s, clock := clock ?ser2 + ?k * 46\<rparr>"
  have r1: "read_exact ser1 8 (Some t) = Some (hdr, ?ser2)"
    using feed lh by (rule read_exact_prefix)
  have "feed ?ser2 = map Byte (bb @ []) @- s" by simp
  then have r2: "read_exact ?ser2 (?k * 46) (Some t) = Some (bb, ?ser3)"
    using lb by (rule read_exact_prefix)
  from lb j bad have "decode_bodies ?k 0 bb [] = Inl ValidationError"
    by (intro decode_bodies_errI [where k = j and e = e]) simp_all
  from parse_bodies_error [OF fs r1 lh r2 lb this] show ?thesis by simp
qed

lemma parse_complete_frame:
  assumes fs: "find_start ser t = Some (True, ser1)"
    and feed: "feed ser1 = map Byte (hdr @ bb @ cb) @- s"
    and lh: "length hdr = 8" and lb: "length bb = unat (hdr ! 4) * 46" and lc: "length cb = 4"
    and wc: "1 \<le> uint (hdr ! 5)" "uint (hdr ! 5) \<le> 3"
    and recs: "\<forall>j<unat (hdr ! 4). \<exists>b. decode_body (take 46 (drop (j * 46) bb)) = Inr b"
  shows "\<exists>bs. length bs = unat (hdr ! 4) \<and>
     (\<forall>j<unat (hdr ! 4). decode_body (take 46 (drop (j * 46) bb)) = Inr (bs ! j)) \<and>
     parse_frame_from_serial ser t =
     Some (Inr (Some
       (\<lparr>header = \<lparr>start_signal = [0x53, 0x59, 0x54, 0x43], data_length = uint (hdr ! 0),
                    mode = uint (hdr ! 1), time = [uint (hdr ! 2), uint (hdr ! 3)],
                    num_TLV = uint (hdr ! 4), work_con = uint (hdr ! 5),
                    reserve = [uint (hdr ! 6), uint (hdr ! 7)]\<rparr>,
         bodies = bs,
         check = \<lparr>crc = [uint (cb ! 0), uint (cb ! 1)], zw = [uint (cb ! 2), uint (cb ! 3)]\<rparr>\<rparr>,
        [(''data_length'', PyInt (uint (hdr ! 0))),
         (''mode'', PyInt (uint (hdr ! 1))),
         (''time_minutes'', PyInt (uint (hdr ! 2) + push_bit 8 (uint (hdr ! 3)))),
         (''num_targets'', PyInt (uint (hdr ! 4))),
         (''work_status'', PyInt (uint (hdr ! 5))),
         (''reserve'', PyList [uint (hdr ! 6), uint (hdr ! 7)])])),
       ser1\<lparr>feed := s, clock := clock ser1 + (8 + unat (hdr ! 4) * 46 + 4)\<rparr>)"
proof -
  let ?k = "unat (hdr ! 4)"
  let ?ser2 = "ser1\<lparr>feed := map Byte (bb @ cb) @- s, clock := clock ser1 + 8\<rparr>"
  let ?ser3 = "?ser2\<lparr>feed := map Byte cb @- s, clock := clock ?ser2 + ?k * 46\<rparr>"
  let ?ser4 = "?ser3\<lparr>feed := map Byte [] @- s, clock := clock ?ser3 + 4\<rparr>"
  have r1: "read_exact ser1 8 (Some t) = Some (hdr, ?ser2)"
    using feed lh by (rule read_exact_prefix)
  have "feed ?ser2 = map Byte (bb @ cb) @- s" by simp
  then have r2: "read_exact ?ser2 (?k * 46) (Some t) = Some (bb, ?ser3)"
    using lb by (rule read_exact_prefix)
  have "feed ?ser3 = map Byte (cb @ []) @- s" by simp
  then have r3: "read_exact ?ser3 4 (Some t) = Some (cb, ?ser4)"
    using lc by (rule read_exact_prefix)
  from lb recs obtain bs where db: "decode_bodies ?k 0 bb [] = Inr (Some bs)"
    using decode_bodies_okI [of 0 ?k bb "[]"] by auto
  from decode_bodies_SomeD [OF db]
  have bs: "length bs = ?k" "\<forall>j<?k. decode_body (take 46 (drop (j * 46) bb)) = Inr (bs ! j)"
    by auto
  from parse_success [OF fs r1 lh r2 lb db r3 lc wc] bs show ?thesis
    by (intro exI [of _ bs]) simp
qed


subsection \<open>The scenario frame and its variants\<close>

lemma find_start_line:
  "find_start (line (START_SEQ @ bs)) t =
     Some (True, \<lparr>feed = map Byte bs @- sconst Idle, clock = 4\<rparr>)"
  using find_start_marker [of "line (START_SEQ @ bs)" "map Byte bs @- sconst Idle" t]
  by (simp add: line_def shift_append)

lemma scenario_record_decoded:
  "decode_body scenario_record =
     Inr \<lparr>tlv_signal = 1, target_distance = 10, target_azimuth = -56, current_status = 1,
          respiration_value = 70, heart_rate_value = 75,
          respiration_curve = [200, 1, 70, 75] @ replicate 16 0,
          heart_rate_curve = replicate 20 0\<rparr>"
  by (subst decode_body_eq) (simp_all add: scenario_record_def)

lemma scenario_result:
  "map_option fst (parse_frame_from_serial scenario_line t) =
     Some (Inr (Some
       (\<lparr>header = \<lparr>start_signal = [0x53, 0x59, 0x54, 0x43], data_length = 46, mode = 1,
                    time = [0, 0], num_TLV = 1, work_con = 1, reserve = [0, 0]\<rparr>,
         bodies = [\<lparr>tlv_signal = 1, target_distance = 10, target_azimuth = -56,
                    current_status = 1, respiration_value = 70, heart_rate_value = 75,
                    respiration_curve = [200, 1, 70, 75] @ replicate 16 0,
                    heart_rate_curve = replicate 20 0\<rparr>],
         check = \<lparr>crc = [0xAB, 0xCD], zw = [0xEE, 0xEE]\<rparr>\<rparr>,
        [(''data_length'', PyInt 46), (''mode'', PyInt 1), (''time_minutes'', PyInt 0),
         (''num_targets'', PyInt 1), (''work_status'', PyInt 1),
         (''reserve'', PyList [0, 0])])))"
proof -
  let ?ser1 = "\<lparr>feed = map Byte (scenario_header @ scenario_record @ scenario_footer) @- sconst Idle,
               clock = 4\<rparr>"
  have fs: "find_start scenario_line t = Some (True, ?ser1)"
    unfolding scenario_line_def by (rule find_start_line)
  have k: "unat (scenario_header ! 4) = 1" by (simp add: scenario_header_def)
  from parse_complete_frame [OF fs, of scenario_header scenario_record scenario_footer "sconst Idle"]
  obtain bs where bs: "length bs = 1" "decode_body scenario_record = Inr (bs ! 0)"
    and p: "map_option fst (parse_frame_from_serial scenario_line t) =
     Some (Inr (Some
       (\<lparr>header = \<lparr>start_signal = [0x53, 0x59, 0x54, 0x43], data_length = 46, mode = 1,
                    time = [0, 0], num_TLV = 1, work_con = 1, reserve = [0, 0]\<rparr>,
         bodies = bs,
         check = \<lparr>crc = [0xAB, 0xCD], zw = [0xEE, 0xEE]\<rparr>\<rparr>,
        [(''data_length'', PyInt 46), (''mode'', PyInt 1), (''time_minutes'', PyInt 0),
         (''num_targets'', PyInt 1), (''work_status'', PyInt 1),
         (''reserve'', PyList [0, 0])])))"
    by (auto simp: k scenario_record_decoded scenario_header_def scenario_footer_def
        scenario_record_def [THEN arg_cong [where f = length]])
  from bs obtain b where "bs = [b]" by (cases bs) auto
  with bs(2) p show ?thesis by (simp add: scenario_record_decoded)
qed


lemma record_at:
  assumes "length bb = k * 46" and "j < k"
  shows "length (take 46 (drop (j * 46) bb)) = 46"
    and "i < 46 \<Longrightarrow> take 46 (drop (j * 46) bb) ! i = bb ! (j * 46 + i)"
proof -
  from assms(2) have "Suc j \<le> k" by simp
  then have "Suc j * 46 \<le> k * 46" by (rule mult_le_mono1)
  with assms(1) have le: "j * 46 + 46 \<le> length bb" by simp
  then show "length (take 46 (drop (j * 46) bb)) = 46" by simp
  show "take 46 (drop (j * 46) bb) ! i = bb ! (j * 46 + i)" if "i < 46"
    using that le by simp
qed

lemma decode_body_invariants:
  assumes "length c = 46" and "decode_body c = Inr b"
  shows "0 \<le> target_distance b \<and> target_distance b \<le> 255 \<and>
         - 127 \<le> target_azimuth b \<and> target_azimuth b \<le> 127 \<and>
         (current_status b = 1 \<or> current_status b = 2) \<and>
         (tlv_signal b = 1 \<or> tlv_signal b = 2) \<and>
         length (respiration_curve b) = 20 \<and> length (heart_rate_curve b) = 20"
proof -
  have bnd: "uint w \<le> 255" "0 \<le> uint w" for w :: byte
    using uint_bounded [of w] by simp_all
  have tlv: "uint w \<le> 2 \<Longrightarrow> w \<noteq> 0 \<Longrightarrow> uint w = 1 \<or> uint w = 2" for w :: byte
  proof -
    assume a: "uint w \<le> 2" "w \<noteq> 0"
    then have "uint w \<noteq> 0" by (simp add: uint_0_iff)
    with a bnd(2) [of w] show ?thesis by linarith
  qed
  from assms(2) have ok: "uint (c ! 0) \<le> 2" "uint (c ! 2) \<noteq> 128" "c ! 3 = 1 \<or> c ! 3 = 2"
    and b: "b = \<lparr>tlv_signal = (if c ! 0 = 0 then 1 else uint (c ! 0)),
                target_distance = uint (c ! 1),
                target_azimuth = (if uint (c ! 2) \<le> 127 then uint (c ! 2)
                                  else uint (c ! 2) - 256),
                current_status = uint (c ! 3),
                respiration_value = uint (c ! 4),
                heart_rate_value = uint (c ! 5),
                respiration_curve = map uint (take 20 (drop 2 c)),
                heart_rate_curve = map uint (take 20 (drop 22 c))\<rparr>"
    unfolding decode_body_eq [OF assms(1)] by (auto split: if_splits)
  have az: "- 127 \<le> target_azimuth b" "target_azimuth b \<le> 127"
    using bnd [of "c ! 2"] ok(2) unfolding b by (simp_all, linarith+)
  have st: "current_status b = 1 \<or> current_status b = 2"
    using ok(3) unfolding b by auto
  have tl: "tlv_signal b = 1 \<or> tlv_signal b = 2"
    using tlv [OF ok(1)] unfolding b by auto
  from az st tl bnd [of "c ! 1"] assms(1) show ?thesis
    unfolding b by simp
qed

lemma record_decode:
  assumes "length bb = k * 46" and "j < k"
  shows "decode_body (take 46 (drop (j * 46) bb)) =
     (if uint (bb ! (j * 46)) \<le> 2 \<and> uint (bb ! (j * 46 + 2)) \<noteq> 128
         \<and> (bb ! (j * 46 + 3) = 1 \<or> bb ! (j * 46 + 3) = 2)
      then Inr \<lparr>tlv_signal = (if bb ! (j * 46) = 0 then 1 else uint (bb ! (j * 46))),
                target_distance = uint (bb ! (j * 46 + 1)),
                target_azimuth = (if uint (bb ! (j * 46 + 2)) \<le> 127 then uint (bb ! (j * 46 + 2))
                                  else uint (bb ! (j * 46 + 2)) - 256),
                current_status = uint (bb ! (j * 46 + 3)),
                respiration_value = uint (bb ! (j * 46 + 4)),
                heart_rate_value = uint (bb ! (j * 46 + 5)),
                respiration_curve = map uint (take 20 (drop (j * 46 + 2) bb)),
                heart_rate_curve = map uint (take 20 (drop (j * 46 + 22) bb))\<rparr>
      else Inl ValidationError)"
proof -
  note r = record_at [OF assms]
  have c: "take 20 (drop 2 (take 46 (drop (j * 46) bb))) = take 20 (drop (j * 46 + 2) bb)"
    "take 20 (drop 22 (take 46 (drop (j * 46) bb))) = take 20 (drop (j * 46 + 22) bb)"
    by (simp_all add: drop_take add.commute)
  show ?thesis
    unfolding decode_body_eq [OF r(1)] c
    using r(2) [of 0] r(2) [of 1] r(2) [of 2] r(2) [of 3] r(2) [of 4] r(2) [of 5]
    by simp
qed

lemma map_option_fst_SomeD: "map_option fst p = Some x \<Longrightarrow> \<exists>y. p = Some (x, y)"
  by (cases p) auto

lemma one_record_rejected:
  assumes "length h = 8" and "unat (h ! 4) = 1" and "length r = 46"
    and "decode_body r = Inl e"
  shows "map_option fst (parse_frame_from_serial (line (START_SEQ @ h @ r @ rest)) t) =
     Some (Inl ValidationError)"
proof -
  let ?s = "map Byte rest @- sconst Idle"
  let ?ser1 = "\<lparr>feed = map Byte (h @ r @ rest) @- sconst Idle, clock = 4\<rparr>"
  have fs: "find_start (line (START_SEQ @ h @ r @ rest)) t = Some (True, ?ser1)"
    by (rule find_start_line)
  have feed: "feed ?ser1 = map Byte (h @ r) @- ?s" by (simp add: shift_append)
  from assms have lb: "length r = unat (h ! 4) * 46" and j: "0 < unat (h ! 4)"
    and bad: "decode_body (take 46 (drop (0 * 46) r)) = Inl e"
    by simp_all
  from parse_complete_bodies_error [OF fs feed assms(1) lb j bad] show ?thesis by simp
qed

subsection \<open>Noise, silence and truncation\<close>

lemma find_start_loop_zeros:
  "set w \<subseteq> {0} \<Longrightarrow> feed ser = map Byte (replicate n 0) @- s \<Longrightarrow>
   \<exists>w'. set w' \<subseteq> {0} \<and>
     find_start_loop t st w ser = find_start_loop t st w' (ser\<lparr>feed := s, clock := clock ser + n\<rparr>)"
proof (induction n arbitrary: w ser)
  case 0
  then have "ser\<lparr>feed := s, clock := clock ser + 0\<rparr> = ser" by simp
  with 0 show ?case by auto
next
  case (Suc n)
  let ?ser = "ser\<lparr>feed := map Byte (replicate n 0) @- s, clock := clock ser + 1\<rparr>"
  let ?w1 = "w @ [0]"
  let ?w2 = "if length ?w1 > length START_SEQ then tl ?w1 else ?w1"
  from Suc.prems have f: "feed ser = Byte 0 ## (map Byte (replicate n 0) @- s)" by simp
  from Suc.prems have w2: "set ?w2 \<subseteq> {0}" by (cases w) auto
  then have ne: "?w2 \<noteq> START_SEQ" by (auto simp: START_SEQ_def)
  have step: "find_start_loop t st w ser = find_start_loop t st ?w2 ?ser"
    unfolding find_start_loop_byte [OF f] Let_def using ne by simp
  have "feed ?ser = map Byte (replicate n 0) @- s" by simp
  from Suc.IH [OF w2 this] obtain w' where "set w' \<subseteq> {0}"
    "find_start_loop t st ?w2 ?ser = find_start_loop t st w' (?ser\<lparr>feed := s, clock := clock ?ser + n\<rparr>)"
    by blast
  with step show ?case by (intro exI [of _ w']) simp
qed

lemma find_start_late:
  assumes "t \<le> n"
  shows "find_start (line (replicate n 0)) t = Some (False, \<lparr>feed = sconst Idle, clock = n + 1\<rparr>)"
proof -
  let ?ser = "\<lparr>feed = sconst Idle, clock = n\<rparr>"
  have "feed (line (replicate n 0)) = map Byte (replicate n 0) @- sconst Idle"
    by (simp add: line_def)
  from find_start_loop_zeros [OF _ this, of "[]" t 0] obtain w' where
    "find_start_loop t 0 [] (line (replicate n 0)) = find_start_loop t 0 w' ?ser"
    by (auto simp: line_def)
  moreover have "feed ?ser = Idle ## sconst Idle" by (subst siterate.ctr) simp
  from find_start_loop_idle [OF this, of t 0 w'] assms
  have "find_start_loop t 0 w' ?ser = Some (False, \<lparr>feed = sconst Idle, clock = n + 1\<rparr>)"
    by (simp add: Let_def)
  ultimately show ?thesis by (simp add: find_start_def line_def)
qed

lemma parse_total:
  assumes "find_start ser t = Some (found, ser1)"
  shows "\<exists>r ser'. parse_frame_from_serial ser t = Some (r, ser')"
proof (cases found)
  case False
  with assms show ?thesis by (auto simp: parse_not_found)
next
  case True
  with assms have fs: "find_start ser t = Some (True, ser1)" by simp
  obtain hdr ser2 where r1: "read_exact ser1 8 (Some t) = Some (hdr, ser2)"
    using read_exact_total [of ser1 8 t] by auto
  show ?thesis
  proof (cases "length hdr < 8")
    case True
    from parse_header_short [OF fs r1 this] show ?thesis by blast
  next
    case False
    with read_exact_length [OF r1] have lh: "length hdr = 8" by simp
    let ?k = "unat (hdr ! 4)"
    obtain bb ser3 where r2: "read_exact ser2 (?k * 46) (Some t) = Some (bb, ser3)"
      using read_exact_total [of ser2 "?k * 46" t] by auto
    show ?thesis
    proof (cases "length bb < ?k * 46")
      case True
      from parse_bodies_short [OF fs r1 lh r2 this] show ?thesis by blast
    next
      case False
      with read_exact_length [OF r2] have lb: "length bb = ?k * 46" by simp
      show ?thesis
      proof (cases "decode_bodies ?k 0 bb []")
        case (Inl e)
        from parse_bodies_error [OF fs r1 lh r2 lb this] show ?thesis by blast
      next
        case (Inr obs)
        with decode_bodies_not_None [of 0 ?k bb "[]"] lb obtain bs where
          db: "decode_bodies ?k 0 bb [] = Inr (Some bs)" by (cases obs) auto
        obtain cb ser4 where r3: "read_exact ser3 4 (Some t) = Some (cb, ser4)"
          using read_exact_total [of ser3 4 t] by auto
        show ?thesis
        proof (cases "length cb < 4")
          case True
          from parse_footer_short [OF fs r1 lh r2 lb db r3 this] show ?thesis by blast
        next
          case False
          with read_exact_length [OF r3] have lc: "length cb = 4" by simp
          show ?thesis
          proof (cases "1 \<le> uint (hdr ! 5) \<and> uint (hdr ! 5) \<le> 3")
            case True
            then have "1 \<le> uint (hdr ! 5)" "uint (hdr ! 5) \<le> 3" by simp_all
            from parse_success [OF fs r1 lh r2 lb db r3 lc this] show ?thesis by blast
          next
            case False
            from parse_header_error [OF fs r1 lh r2 lb db r3 lc this] show ?thesis by blast
          qed
        qed
      qed
    qed
  qed
qed

lemma parse_bad_work_con_no_frame:
  assumes fs: "find_start ser t = Some (True, ser1)"
    and r1: "read_exact ser1 8 (Some t) = Some (hdr, ser2)"
    and wc: "\<not> (1 \<le> uint (hdr ! 5) \<and> uint (hdr ! 5) \<le> 3)"
  shows "parse_frame_from_serial ser t \<noteq> Some (Inr (Some (d, i)), ser')"
proof
  assume "parse_frame_from_serial ser t = Some (Inr (Some (d, i)), ser')"
  from parse_SomeD [OF this] fs r1 have
    "new_MircoHead (map uint START_SEQ) (uint (hdr ! 0)) (uint (hdr ! 1))
       [uint (hdr ! 2), uint (hdr ! 3)] (uint (hdr ! 4)) (uint (hdr ! 5))
       [uint (hdr ! 6), uint (hdr ! 7)] = Inr (header d)"
    by auto
  with wc show False by (auto simp: new_MircoHead_def split: if_splits)
qed

lemma parse_complete_header_error:
  assumes fs: "find_start ser t = Some (True, ser1)"
    and feed: "feed ser1 = map Byte (hdr @ bb @ cb) @- s"
    and lh: "length hdr = 8" and lb: "length bb = unat (hdr ! 4) * 46" and lc: "length cb = 4"
    and wc: "\<not> (1 \<le> uint (hdr ! 5) \<and> uint (hdr ! 5) \<le> 3)"
    and recs: "\<forall>j<unat (hdr ! 4). \<exists>b. decode_body (take 46 (drop (j * 46) bb)) = Inr b"
  shows "parse_frame_from_serial ser t =
     Some (Inl ValidationError,
           ser1\<lparr>feed := s, clock := clock ser1 + (8 + unat (hdr ! 4) * 46 + 4)\<rparr>)"
proof -
  let ?k = "unat (hdr ! 4)"
  let ?ser2 = "ser1\<lparr>feed := map Byte (bb @ cb) @- s, clock := clock ser1 + 8\<rparr>"
  let ?ser3 = "?ser2\<lparr>feed := map Byte cb @- s, clock := clock ?ser2 + ?k * 46\<rparr>"
  let ?ser4 = "?ser3\<lparr>feed := map Byte [] @- s, clock := clock ?ser3 + 4\<rparr>"
  have r1: "read_exact ser1 8 (Some t) = Some (hdr, ?ser2)"
    using feed lh by (rule read_exact_prefix)
  have "feed ?ser2 = map Byte (bb @ cb) @- s" by simp
  then have r2: "read_exact ?ser2 (?k * 46) (Some t) = Some (bb, ?ser3)"
    using lb by (rule read_exact_prefix)
  have "feed ?ser3 = map Byte (cb @ []) @- s" by simp
  then have r3: "read_exact ?ser3 4 (Some t) = Some (cb, ?ser4)"
    using lc by (rule read_exact_prefix)
  from lb recs obtain bs where db: "decode_bodies ?k 0 bb [] = Inr (Some bs)"
    using decode_bodies_okI [of 0 ?k bb "[]"] by auto
  from parse_header_error [OF fs r1 lh r2 lb db r3 lc wc] show ?thesis by simp
qed

lemma parse_valid_frame:
  assumes fs: "find_start ser t = Some (True, ser1)"
    and feed: "feed ser1 = map Byte (hdr @ bb @ cb) @- s"
    and lh: "length hdr = 8" and lb: "length bb = unat (hdr ! 4) * 46" and lc: "length cb = 4"
    and wc: "1 \<le> uint (hdr ! 5)" "uint (hdr ! 5) \<le> 3"
    and valid: "\<forall>j<unat (hdr ! 4). uint (bb ! (j * 46)) \<le> 2 \<and> uint (bb ! (j * 46 + 2)) \<noteq> 128 \<and>
          (bb ! (j * 46 + 3) = 1 \<or> bb ! (j * 46 + 3) = 2)"
  shows "\<exists>bs. length bs = unat (hdr ! 4) \<and>
     (\<forall>j<unat (hdr ! 4). bs ! j =
        \<lparr>tlv_signal = (if bb ! (j * 46) = 0 then 1 else uint (bb ! (j * 46))),
         target_distance = uint (bb ! (j * 46 + 1)),
         target_azimuth = (if uint (bb ! (j * 46 + 2)) \<le> 127 then uint (bb ! (j * 46 + 2))
                           else uint (bb ! (j * 46 + 2)) - 256),
         current_status = uint (bb ! (j * 46 + 3)),
         respiration_value = uint (bb ! (j * 46 + 4)),
         heart_rate_value = uint (bb ! (j * 46 + 5)),
         respiration_curve = map uint (take 20 (drop (j * 46 + 2) bb)),
         heart_rate_curve = map uint (take 20 (drop (j * 46 + 22) bb))\<rparr>) \<and>
     parse_frame_from_serial ser t =
     Some (Inr (Some
       (\<lparr>header = \<lparr>start_signal = [0x53, 0x59, 0x54, 0x43], data_length = uint (hdr ! 0),
                    mode = uint (hdr ! 1), time = [uint (hdr ! 2), uint (hdr ! 3)],
                    num_TLV = uint (hdr ! 4), work_con = uint (hdr ! 5),
                    reserve = [uint (hdr ! 6), uint (hdr ! 7)]\<rparr>,
         bodies = bs,
         check = \<lparr>crc = [uint (cb ! 0), uint (cb ! 1)], zw = [uint (cb ! 2), uint (cb ! 3)]\<rparr>\<rparr>,
        [(''data_length'', PyInt (uint (hdr ! 0))),
         (''mode'', PyInt (uint (hdr ! 1))),
         (''time_minutes'', PyInt (uint (hdr ! 2) + push_bit 8 (uint (hdr ! 3)))),
         (''num_targets'', PyInt (uint (hdr ! 4))),
         (''work_status'', PyInt (uint (hdr ! 5))),
         (''reserve'', PyList [uint (hdr ! 6), uint (hdr ! 7)])])),
       ser1\<lparr>feed := s, clock := clock ser1 + (8 + unat (hdr ! 4) * 46 + 4)\<rparr>)"
proof -
  have recs: "\<forall>j<unat (hdr ! 4). \<exists>b. decode_body (take 46 (drop (j * 46) bb)) = Inr b"
  proof (intro allI impI)
    fix j assume j: "j < unat (hdr ! 4)"
    with valid show "\<exists>b. decode_body (take 46 (drop (j * 46) bb)) = Inr b"
      unfolding record_decode [OF lb j] by simp
  qed
  from parse_complete_frame [OF fs feed lh lb lc wc recs] obtain bs where
    bs: "length bs = unat (hdr ! 4)"
      "\<forall>j<unat (hdr ! 4). decode_body (take 46 (drop (j * 46) bb)) = Inr (bs ! j)"
    and p: "parse_frame_from_serial ser t =
     Some (Inr (Some
       (\<lparr>header = \<lparr>start_signal = [0x53, 0x59, 0x54, 0x43], data_length = uint (hdr ! 0),
                    mode = uint (hdr ! 1), time = [uint (hdr ! 2), uint (hdr ! 3)],
                    num_TLV = uint (hdr ! 4), work_con = uint (hdr ! 5),
                    reserve = [uint (hdr ! 6), uint (hdr ! 7)]\<rparr>,
         bodies = bs,
         check = \<lparr>crc = [uint (cb ! 0), uint (cb ! 1)], zw = [uint (cb ! 2), uint (cb ! 3)]\<rparr>\<rparr>,
        [(''data_length'', PyInt (uint (hdr ! 0))),
         (''mode'', PyInt (uint (hdr ! 1))),
         (''time_minutes'', PyInt (uint (hdr ! 2) + push_bit 8 (uint (hdr ! 3)))),
         (''num_targets'', PyInt (uint (hdr ! 4))),
         (''work_status'', PyInt (uint (hdr ! 5))),
         (''reserve'', PyList [uint (hdr ! 6), uint (hdr ! 7)])])),
       ser1\<lparr>feed := s, clock := clock ser1 + (8 + unat (hdr ! 4) * 46 + 4)\<rparr>)"
    by blast
  have "bs ! j =
        \<lparr>tlv_signal = (if bb ! (j * 46) = 0 then 1 else uint (bb ! (j * 46))),
         target_distance = uint (bb ! (j * 46 + 1)),
         target_azimuth = (if uint (bb ! (j * 46 + 2)) \<le> 127 then uint (bb ! (j * 46 + 2))
                           else uint (bb ! (j * 46 + 2)) - 256),
         current_status = uint (bb ! (j * 46 + 3)),
         respiration_value = uint (bb ! (j * 46 + 4)),
         heart_rate_value = uint (bb ! (j * 46 + 5)),
         respiration_curve = map uint (take 20 (drop (j * 46 + 2) bb)),
         heart_rate_curve = map uint (take 20 (drop (j * 46 + 22) bb))\<rparr>"
    if j: "j < unat (hdr ! 4)" for j
  proof -
    from bs(2) j have "decode_body (take 46 (drop (j * 46) bb)) = Inr (bs ! j)" by simp
    with valid j show ?thesis unfolding record_decode [OF lb j] by simp
  qed
  with bs(1) p show ?thesis by (intro exI [of _ bs]) simp
qed

lemma scenario_header_facts:
  "length scenario_header = 8" "unat (scenario_header ! 4) = 1"
  "1 \<le> uint (scenario_header ! 5)" "uint (scenario_header ! 5) \<le> 3"
  by (simp_all add: scenario_header_def)

lemma one_record_accepted:
  assumes "length r = 46" and "uint (r ! 0) \<le> 2" and "uint (r ! 2) \<noteq> 128"
    and "r ! 3 = 1 \<or> r ! 3 = 2" and "length f = 4"
  shows "\<exists>d i ser'. parse_frame_from_serial (line (START_SEQ @ scenario_header @ r @ f)) t
     = Some (Inr (Some (d, i)), ser')"
proof -
  let ?ser1 = "\<lparr>feed = map Byte (scenario_header @ r @ f) @- sconst Idle, clock = 4\<rparr>"
  have fs: "find_start (line (START_SEQ @ scenario_header @ r @ f)) t = Some (True, ?ser1)"
    by (rule find_start_line)
  have feed: "feed ?ser1 = map Byte (scenario_header @ r @ f) @- sconst Idle" by simp
  have lb: "length r = unat (scenario_header ! 4) * 46"
    using assms(1) by (simp add: scenario_header_facts)
  have v: "\<forall>j<unat (scenario_header ! 4). uint (r ! (j * 46)) \<le> 2 \<and>
          uint (r ! (j * 46 + 2)) \<noteq> 128 \<and> (r ! (j * 46 + 3) = 1 \<or> r ! (j * 46 + 3) = 2)"
    using assms(2,3,4) by (simp add: scenario_header_facts numeral_2_eq_2 numeral_3_eq_3)
  from parse_valid_frame [OF fs feed scenario_header_facts(1) lb assms(5)
      scenario_header_facts(3,4) v]
  show ?thesis by blast
qed

lemma find_start_loop_idles:
  "feed ser = replicate n Idle @- s \<Longrightarrow> st \<le> clock ser \<Longrightarrow> 0 < n \<Longrightarrow>
   clock ser + n = st + t + 1 \<Longrightarrow>
   find_start_loop t st w ser = Some (False, ser\<lparr>feed := s, clock := clock ser + n\<rparr>)"
proof (induction n arbitrary: ser)
  case 0
  then show ?case by simp
next
  case (Suc n)
  let ?ser = "ser\<lparr>feed := replicate n Idle @- s, clock := clock ser + 1\<rparr>"
  from Suc.prems have f: "feed ser = Idle ## (replicate n Idle @- s)" by simp
  note unf = find_start_loop_idle [OF f, of t st w, unfolded Let_def]
  show ?case
  proof (cases n)
    case 0
    with Suc.prems show ?thesis unfolding unf by auto
  next
    case (Suc m)
    with Suc.prems have nt: "\<not> clock ?ser - st > t" by simp
    from Suc Suc.prems have "feed ?ser = replicate n Idle @- s" "st \<le> clock ?ser" "0 < n"
      "clock ?ser + n = st + t + 1"
      by simp_all
    from Suc.IH [OF this] nt show ?thesis unfolding unf by simp
  qed
qed

lemma find_start_silent:
  assumes "feed ser = replicate (Suc t) Idle @- s"
  shows "find_start ser t = Some (False, ser\<lparr>feed := s, clock := clock ser + Suc t\<rparr>)"
  unfolding find_start_def
  by (rule find_start_loop_idles [OF assms]) simp_all

lemma parse_silent:
  assumes "feed ser = replicate (Suc t) Idle @- s"
  shows "parse_frame_from_serial ser t =
     Some (Inr None, ser\<lparr>feed := s, clock := clock ser + Suc t\<rparr>)"
  using find_start_silent [OF assms] by (rule parse_not_found)

lemma parse_truncated:
  assumes fs: "find_start ser t = Some (True, ser1)"
    and feed: "feed ser1 = map Byte rest @- (replicate n Idle @- s)" and n: "t + 2 \<le> n"
    and short: "length rest < 8 \<or> length rest < 8 + unat (rest ! 4) * 46 + 4"
  shows "\<exists>r ser'. parse_frame_from_serial ser t = Some (r, ser') \<and> (\<forall>f. r \<noteq> Inr (Some f)) \<and>
     (length rest < 8 \<or> length rest < 8 + unat (rest ! 4) * 46 \<or>
      (\<forall>j<unat (rest ! 4). uint (rest ! (8 + j * 46)) \<le> 2 \<and>
          uint (rest ! (8 + j * 46 + 2)) \<noteq> 128 \<and>
          (rest ! (8 + j * 46 + 3) = 1 \<or> rest ! (8 + j * 46 + 3) = 2))
      \<longrightarrow> r = Inr None)"
proof (cases "length rest < 8")
  case True
  from read_exact_short [OF True feed n] obtain ser2 where
    "read_exact ser1 8 (Some t) = Some (rest, ser2)" by blast
  from parse_header_short [OF fs this True] show ?thesis by auto
next
  case False
  define hdr where "hdr = take 8 rest"
  define tl where "tl = drop 8 rest"
  let ?k = "unat (hdr ! 4)"
  from False have lh: "length hdr = 8" and rest: "rest = hdr @ tl" and k: "hdr ! 4 = rest ! 4"
    by (simp_all add: hdr_def tl_def)
  from False short have sh: "length tl < ?k * 46 + 4"
    unfolding k by (simp add: tl_def)
  let ?ser2 = "ser1\<lparr>feed := map Byte tl @- (replicate n Idle @- s), clock := clock ser1 + 8\<rparr>"
  from feed have "feed ser1 = map Byte (hdr @ tl) @- (replicate n Idle @- s)"
    by (simp add: rest)
  then have r1: "read_exact ser1 8 (Some t) = Some (hdr, ?ser2)"
    using lh by (rule read_exact_prefix)
  have f2: "feed ?ser2 = map Byte tl @- (replicate n Idle @- s)" by simp
  show ?thesis
  proof (cases "length tl < ?k * 46")
    case True
    from read_exact_short [OF True f2 n] obtain ser3 where
      "read_exact ?ser2 (?k * 46) (Some t) = Some (tl, ser3)" by blast
    from parse_bodies_short [OF fs r1 lh this True] show ?thesis by auto
  next
    case full: False
    define bb where "bb = take (?k * 46) tl"
    define cb where "cb = drop (?k * 46) tl"
    from full sh have lb: "length bb = ?k * 46" and tl: "tl = bb @ cb" and lc: "length cb < 4"
      by (simp_all add: bb_def cb_def)
    let ?ser3 = "?ser2\<lparr>feed := map Byte cb @- (replicate n Idle @- s), clock := clock ?ser2 + ?k * 46\<rparr>"
    have "feed ?ser2 = map Byte (bb @ cb) @- (replicate n Idle @- s)" by (simp add: tl)
    then have r2: "read_exact ?ser2 (?k * 46) (Some t) = Some (bb, ?ser3)"
      using lb by (rule read_exact_prefix)
    have f3: "feed ?ser3 = map Byte cb @- (replicate n Idle @- s)" by simp
    from read_exact_short [OF lc f3 n] obtain ser4 where
      r3: "read_exact ?ser3 4 (Some t) = Some (cb, ser4)" by blast
    have at: "bb ! i = rest ! (8 + i)" if "i < ?k * 46" for i
      using that full False by (simp add: bb_def tl_def)
    show ?thesis
    proof (cases "decode_bodies ?k 0 bb []")
      case (Inl e)
      have "\<not> (\<forall>j<?k. uint (bb ! (j * 46)) \<le> 2 \<and> uint (bb ! (j * 46 + 2)) \<noteq> 128 \<and>
          (bb ! (j * 46 + 3) = 1 \<or> bb ! (j * 46 + 3) = 2))"
      proof
        assume v: "\<forall>j<?k. uint (bb ! (j * 46)) \<le> 2 \<and> uint (bb ! (j * 46 + 2)) \<noteq> 128 \<and>
          (bb ! (j * 46 + 3) = 1 \<or> bb ! (j * 46 + 3) = 2)"
        have "\<forall>j<?k. \<exists>b. decode_body (take 46 (drop (j * 46) bb)) = Inr b"
        proof (intro allI impI)
          fix j assume j: "j < ?k"
          with v show "\<exists>b. decode_body (take 46 (drop (j * 46) bb)) = Inr b"
            unfolding record_decode [OF lb j] by simp
        qed
        with decode_bodies_okI [of 0 ?k bb "[]"] lb Inl show False by simp
      qed
      then obtain j where j: "j < ?k"
        and bad: "\<not> (uint (bb ! (j * 46)) \<le> 2 \<and> uint (bb ! (j * 46 + 2)) \<noteq> 128 \<and>
          (bb ! (j * 46 + 3) = 1 \<or> bb ! (j * 46 + 3) = 2))"
        by blast
      from j have "Suc j \<le> ?k" by simp
      then have "Suc j * 46 \<le> ?k * 46" by (rule mult_le_mono1)
      then have "j * 46 < ?k * 46" "j * 46 + 2 < ?k * 46" "j * 46 + 3 < ?k * 46" by simp_all
      with bad have "\<not> (uint (rest ! (8 + j * 46)) \<le> 2 \<and> uint (rest ! (8 + j * 46 + 2)) \<noteq> 128 \<and>
          (rest ! (8 + j * 46 + 3) = 1 \<or> rest ! (8 + j * 46 + 3) = 2))"
        by (simp add: at add.assoc)
      with j have nv: "\<not> (\<forall>j<unat (rest ! 4). uint (rest ! (8 + j * 46)) \<le> 2 \<and>
          uint (rest ! (8 + j * 46 + 2)) \<noteq> 128 \<and>
          (rest ! (8 + j * 46 + 3) = 1 \<or> rest ! (8 + j * 46 + 3) = 2))"
        unfolding k [symmetric] by blast
      from full False have nl: "\<not> length rest < 8" "\<not> length rest < 8 + unat (rest ! 4) * 46"
        unfolding k [symmetric] by (simp_all add: tl_def)
      from parse_bodies_error [OF fs r1 lh r2 lb Inl] nv nl show ?thesis by auto
    next
      case (Inr obs)
      with decode_bodies_not_None [of 0 ?k bb "[]"] lb obtain bs where
        db: "decode_bodies ?k 0 bb [] = Inr (Some bs)" by (cases obs) auto
      from parse_footer_short [OF fs r1 lh r2 lb db r3 lc] show ?thesis by auto
    qed
  qed
qed

text \<open>
  The azimuth of the other 255 wire bytes: in a complete frame whose fields pass validation
  each body carries the byte itself when it is at most 127 and the byte minus 256 otherwise.
\<close>

lemma frame_azimuth_signed:
  assumes "find_start ser t = Some (True, ser1)"
    and "feed ser1 = map Byte (hdr @ bb @ cb) @- s"
    and "length hdr = 8" and "length bb = unat (hdr ! 4) * 46" and "length cb = 4"
    and "1 \<le> uint (hdr ! 5)" and "uint (hdr ! 5) \<le> 3"
    and "\<forall>j<unat (hdr ! 4). uint (bb ! (j * 46)) \<le> 2 \<and> uint (bb ! (j * 46 + 2)) \<noteq> 128 \<and>
          (bb ! (j * 46 + 3) = 1 \<or> bb ! (j * 46 + 3) = 2)"
  shows "\<exists>d i ser'. parse_frame_from_serial ser t = Some (Inr (Some (d, i)), ser') \<and>
     length (bodies d) = unat (hdr ! 4) \<and>
     (\<forall>j<unat (hdr ! 4).
        target_azimuth (bodies d ! j) =
          (if uint (bb ! (j * 46 + 2)) \<le> 127 then uint (bb ! (j * 46 + 2))
           else uint (bb ! (j * 46 + 2)) - 256) \<and>
        - 127 \<le> target_azimuth (bodies d ! j) \<and> target_azimuth (bodies d ! j) \<le> 127)"
proof -
  from parse_valid_frame [OF assms] obtain bs d i ser' where
    p: "parse_frame_from_serial ser t = Some (Inr (Some (d, i)), ser')"
    and d: "bodies d = bs" and l: "length bs = unat (hdr ! 4)"
    and az: "\<forall>j<unat (hdr ! 4). target_azimuth (bs ! j) =
          (if uint (bb ! (j * 46 + 2)) \<le> 127 then uint (bb ! (j * 46 + 2))
           else uint (bb ! (j * 46 + 2)) - 256)"
    by force
  have "- 127 \<le> target_azimuth (bs ! j) \<and> target_azimuth (bs ! j) \<le> 127"
    if j: "j < unat (hdr ! 4)" for j
  proof -
    let ?b = "bb ! (j * 46 + 2)"
    have "0 \<le> uint ?b" by simp
    then have lo: "- 127 \<le> uint ?b" by linarith
    have hi: "uint ?b < 256" using uint_bounded [of ?b] by simp
    from assms(8) j have ne: "uint ?b \<noteq> 128" by simp
    from az j have "target_azimuth (bs ! j) =
       (if uint ?b \<le> 127 then uint ?b else uint ?b - 256)" by simp
    with lo hi ne show ?thesis by (simp split: if_splits)
  qed
  with p d l az show ?thesis
    by (intro exI [of _ d] exI [of _ i] exI [of _ ser']) simp
qed

lemma frame_azimuth_signed_examples:
  "(\<exists>d i ser'. parse_frame_from_serial scenario_line 1 = Some (Inr (Some (d, i)), ser') \<and>
      length (bodies d) = 1 \<and> target_azimuth (bodies d ! 0) = - 56) \<and>
   (\<exists>d i ser'. parse_frame_from_serial
        (line (START_SEQ @ scenario_header @ scenario_record[2 := 100] @ scenario_footer)) 1
          = Some (Inr (Some (d, i)), ser') \<and>
      length (bodies d) = 1 \<and> target_azimuth (bodies d ! 0) = 100)"
proof -
  have w: "\<exists>d i ser'. parse_frame_from_serial
        (line (START_SEQ @ scenario_header @ scenario_record[2 := a] @ scenario_footer)) 1
          = Some (Inr (Some (d, i)), ser') \<and>
      length (bodies d) = 1 \<and>
      target_azimuth (bodies d ! 0) = (if uint a \<le> 127 then uint a else uint a - 256)"
    if a: "uint a \<noteq> 128" for a :: byte
  proof -
    let ?rec = "scenario_record[2 := a]"
    let ?ser1 = "\<lparr>feed = map Byte (scenario_header @ ?rec @ scenario_footer) @- sconst Idle,
                 clock = 4\<rparr>"
    have fs: "find_start (line (START_SEQ @ scenario_header @ ?rec @ scenario_footer)) 1
        = Some (True, ?ser1)"
      by (rule find_start_line)
    have feed: "feed ?ser1 = map Byte (scenario_header @ ?rec @ scenario_footer) @- sconst Idle"
      by simp
    have lb: "length ?rec = unat (scenario_header ! 4) * 46"
      by (simp add: scenario_header_facts scenario_record_def)
    have lc: "length scenario_footer = 4" by (simp add: scenario_footer_def)
    have v: "\<forall>j<unat (scenario_header ! 4). uint (?rec ! (j * 46)) \<le> 2 \<and>
          uint (?rec ! (j * 46 + 2)) \<noteq> 128 \<and>
          (?rec ! (j * 46 + 3) = 1 \<or> ?rec ! (j * 46 + 3) = 2)"
      using a by (simp add: scenario_header_facts scenario_record_def)
    have r: "?rec ! (0 * 46 + 2) = a" by (simp add: scenario_record_def)
    from frame_azimuth_signed [OF fs feed scenario_header_facts(1) lb lc scenario_header_facts(3,4) v]
    obtain d i ser' where
      "parse_frame_from_serial (line (START_SEQ @ scenario_header @ ?rec @ scenario_footer)) 1
         = Some (Inr (Some (d, i)), ser')"
      "length (bodies d) = unat (scenario_header ! 4)"
      "\<forall>j<unat (scenario_header ! 4). target_azimuth (bodies d ! j) =
          (if uint (?rec ! (j * 46 + 2)) \<le> 127 then uint (?rec ! (j * 46 + 2))
           else uint (?rec ! (j * 46 + 2)) - 256)"
      by blast
    then have "parse_frame_from_serial (line (START_SEQ @ scenario_header @ ?rec @ scenario_footer)) 1
         = Some (Inr (Some (d, i)), ser') \<and> length (bodies d) = 1 \<and>
       target_azimuth (bodies d ! 0) = (if uint a \<le> 127 then uint a else uint a - 256)"
      unfolding scenario_header_facts(2) using r by simp
    then show ?thesis by blast
  qed
  have "scenario_record[2 := 200] = scenario_record" by (simp add: scenario_record_def)
  with w [of 200] w [of 100] show ?thesis by (simp add: scenario_line_def)
qed

text \<open>
  What holds of every frame that is returned: the count of bodies and the header agree, the
  marker is the start signal, and each body is within the ranges of the models.
\<close>

lemma returned_frame_invariants:
  assumes p: "parse_frame_from_serial ser t = Some (Inr (Some (d, i)), ser')"
  shows "int (length (bodies d)) = num_TLV (header d) \<and>
      start_signal (header d) = [0x53, 0x59, 0x54, 0x43] \<and>
      (\<forall>b \<in> set (bodies d).
         0 \<le> target_distance b \<and> target_distance b \<le> 255 \<and>
         - 128 \<le> target_azimuth b \<and> target_azimuth b \<le> 127 \<and>
         (current_status b = 1 \<or> current_status b = 2) \<and>
         length (respiration_curve b) = 20 \<and> length (heart_rate_curve b) = 20)"
proof (intro conjI)
  from parse_SomeD [OF p] obtain hdr :: "byte list" and bb where
    lb: "length bb = unat (hdr ! 4) * 46"
    and db: "decode_bodies (unat (hdr ! 4)) 0 bb [] = Inr (Some (bodies d))"
    and nh: "new_MircoHead (map uint START_SEQ) (uint (hdr ! 0)) (uint (hdr ! 1))
       [uint (hdr ! 2), uint (hdr ! 3)] (uint (hdr ! 4)) (uint (hdr ! 5))
       [uint (hdr ! 6), uint (hdr ! 7)] = Inr (header d)"
    by blast
  from decode_bodies_SomeD [OF db]
  have len: "length (bodies d) = unat (hdr ! 4)"
    and each: "\<forall>j<unat (hdr ! 4). decode_body (take 46 (drop (j * 46) bb)) = Inr (bodies d ! j)"
    by auto
  from nh [symmetric] have h: "num_TLV (header d) = uint (hdr ! 4)" "start_signal (header d) = map uint START_SEQ"
    by (auto simp: new_MircoHead_def split: if_splits)
  from len h(1) show "int (length (bodies d)) = num_TLV (header d)" by simp
  from h(2) show "start_signal (header d) = [0x53, 0x59, 0x54, 0x43]"
    by (simp add: START_SEQ_def)
  show "\<forall>b \<in> set (bodies d).
         0 \<le> target_distance b \<and> target_distance b \<le> 255 \<and>
         - 128 \<le> target_azimuth b \<and> target_azimuth b \<le> 127 \<and>
         (current_status b = 1 \<or> current_status b = 2) \<and>
         length (respiration_curve b) = 20 \<and> length (heart_rate_curve b) = 20"
  proof
    fix b assume "b \<in> set (bodies d)"
    then obtain j where j: "j < unat (hdr ! 4)" "b = bodies d ! j"
      unfolding in_set_conv_nth len [symmetric] by auto
    with each have "decode_body (take 46 (drop (j * 46) bb)) = Inr b" by simp
    from decode_body_invariants [OF record_at(1) [OF lb j(1)] this]
    show "0 \<le> target_distance b \<and> target_distance b \<le> 255 \<and>
         - 128 \<le> target_azimuth b \<and> target_azimuth b \<le> 127 \<and>
         (current_status b = 1 \<or> current_status b = 2) \<and>
         length (respiration_curve b) = 20 \<and> length (heart_rate_curve b) = 20"
      by simp
  qed
qed

lemma returned_frame_count:
  assumes "parse_frame_from_serial ser t = Some (Inr (Some (d, i)), ser')"
  shows "\<exists>ser1 hdr ser2. find_start ser t = Some (True, ser1) \<and>
     read_exact ser1 8 (Some t) = Some (hdr, ser2) \<and> length hdr = 8 \<and>
     length (bodies d) = unat (hdr ! 4) \<and> num_TLV (header d) = uint (hdr ! 4)"
proof -
  from parse_SomeD [OF assms] obtain ser1 and hdr :: "byte list" and ser2 bb where
    fs: "find_start ser t = Some (True, ser1)"
    and r1: "read_exact ser1 8 (Some t) = Some (hdr, ser2)" and lh: "length hdr = 8"
    and db: "decode_bodies (unat (hdr ! 4)) 0 bb [] = Inr (Some (bodies d))"
    and nh: "new_MircoHead (map uint START_SEQ) (uint (hdr ! 0)) (uint (hdr ! 1))
       [uint (hdr ! 2), uint (hdr ! 3)] (uint (hdr ! 4)) (uint (hdr ! 5))
       [uint (hdr ! 6), uint (hdr ! 7)] = Inr (header d)"
    by blast
  from decode_bodies_SomeD [OF db] have "length (bodies d) = unat (hdr ! 4)" by auto
  moreover from nh [symmetric] have "num_TLV (header d) = uint (hdr ! 4)"
    by (auto simp: new_MircoHead_def split: if_splits)
  ultimately show ?thesis using fs r1 lh by blast
qed

section \<open>The claims\<close>

text \<open>
  C1. The concrete scenario of the specification: marker, header \<open>2E 01 00 00 01 01 00 00\<close>,
  one record \<open>tlv_signal=0, distance=10, azimuth=200, status=1, resp=70, hr=75\<close> with all
  forty curve bytes zero, footer \<open>AB CD EE EE\<close>. The parser returns a frame whose header,
  scalar fields and footer are as the specification says, but whose respiration curve is
  \<open>[200, 1, 70, 75, 0, \<dots>, 0]\<close> and not twenty zero bytes: \<^verbatim>\<open>chunk[-44:-24]\<close> of a 46-byte
  record is bytes 2 to 21, so the curve starts on the azimuth byte.
\<close>

theorem C1_scenario_respiration_curve_shifted:
  "map_option fst (parse_frame_from_serial scenario_line t) =
     Some (Inr (Some
       (\<lparr>header = \<lparr>start_signal = [0x53, 0x59, 0x54, 0x43], data_length = 46, mode = 1,
                    time = [0, 0], num_TLV = 1, work_con = 1, reserve = [0, 0]\<rparr>,
         bodies = [\<lparr>tlv_signal = 1, target_distance = 10, target_azimuth = -56,
                    current_status = 1, respiration_value = 70, heart_rate_value = 75,
                    respiration_curve = [200, 1, 70, 75] @ replicate 16 0,
                    heart_rate_curve = replicate 20 0\<rparr>],
         check = \<lparr>crc = [0xAB, 0xCD], zw = [0xEE, 0xEE]\<rparr>\<rparr>,
        [(''data_length'', PyInt 46), (''mode'', PyInt 1), (''time_minutes'', PyInt 0),
         (''num_targets'', PyInt 1), (''work_status'', PyInt 1),
         (''reserve'', PyList [0, 0])])))
   \<and> [200, 1, 70, 75] @ replicate 16 0 \<noteq> replicate 20 (0 :: int)"
  using scenario_result [of t] by (simp add: eval_nat_numeral)

text \<open>
  C2. A record whose forty curve bytes are 1 to 40. Bytes 6 to 25 are 1 to 20 and bytes 26 to
  45 are 21 to 40, but the decoded respiration curve is bytes 2 to 21 (azimuth, status,
  respiration value, heart rate value, then 1 to 16) and the decoded heart rate curve is
  bytes 22 to 41 (17 to 36).
\<close>

theorem C2_curves_read_four_bytes_early:
  "decode_body ramp_record =
     Inr \<lparr>tlv_signal = 1, target_distance = 10, target_azimuth = 5, current_status = 1,
          respiration_value = 70, heart_rate_value = 75,
          respiration_curve =
            [5, 1, 70, 75, 1, 2, 3, 4, 5, 6, 7, 8, 9, 10, 11, 12, 13, 14, 15, 16],
          heart_rate_curve =
            [17, 18, 19, 20, 21, 22, 23, 24, 25, 26, 27, 28, 29, 30, 31, 32, 33, 34, 35, 36]\<rparr>
   \<and> map uint (take 20 (drop 6 ramp_record)) =
       [1, 2, 3, 4, 5, 6, 7, 8, 9, 10, 11, 12, 13, 14, 15, 16, 17, 18, 19, 20]
   \<and> map uint (take 20 (drop 26 ramp_record)) =
       [21, 22, 23, 24, 25, 26, 27, 28, 29, 30, 31, 32, 33, 34, 35, 36, 37, 38, 39, 40]"
  by (subst decode_body_eq) (simp_all add: ramp_record_def)

text \<open>
  C3. The wire byte 128 in the azimuth position. The parser folds every byte above 127 by
  subtracting 256, so 128 becomes \<open>-128\<close>; \<^verbatim>\<open>MircoBody\<close> bounds the azimuth by \<open>-127\<close> and
  \<open>128\<close>, the range of the fold shifted by one, and rejects \<open>-128\<close>. The scenario frame with
  azimuth byte 128 is therefore not decoded: the call ends in \<^verbatim>\<open>ValidationError\<close>, where the
  claim has the azimuth \<open>128 - 256 = -128\<close> in a frame that is returned.
\<close>

theorem C3_azimuth_128_rejected:
  "map_option fst (parse_frame_from_serial
      (line (START_SEQ @ scenario_header @ scenario_record[2 := 128] @ scenario_footer)) 1) =
     Some (Inl ValidationError)"
proof (rule one_record_rejected)
  show "decode_body (scenario_record[2 := 128]) = Inl ValidationError"
    by (subst decode_body_eq) (simp_all add: scenario_record_def)
qed (simp_all add: scenario_header_def scenario_record_def)

text \<open>
  C4. The docstring of \<^verbatim>\<open>parse_frame_from_serial\<close> promises \<^verbatim>\<open>None\<close> on failure, and the
  claim says that a failure is always a returned value, never an exception. The models raise
  \<^verbatim>\<open>ValidationError\<close> and the parser does not catch it: on the scenario frame with the
  status byte of its record set to 0 the call ends in the exception, not in a returned value.
\<close>

theorem C4_invalid_status_raises:
  "map_option fst (parse_frame_from_serial
      (line (START_SEQ @ scenario_header @ scenario_record[3 := 0] @ scenario_footer)) t) =
     Some (Inl ValidationError)"
proof (rule one_record_rejected)
  show "decode_body (scenario_record[3 := 0]) = Inl ValidationError"
    by (subst decode_body_eq) (simp_all add: scenario_record_def)
qed (simp_all add: scenario_header_def scenario_record_def)

text \<open>
  C5. The marker, a complete header announcing one target, a complete record whose status
  byte is 0, and then silence: four bytes are missing, yet the call does not return the
  truncation failure. The record is validated before the footer is read, and the
  \<^verbatim>\<open>ValidationError\<close> escapes. (When every complete record passes validation, a
  truncated frame does end in \<^verbatim>\<open>None\<close>: lemma \<open>parse_truncated\<close>.)
\<close>

theorem C5_truncated_footer_raises:
  "map_option fst (parse_frame_from_serial
      (line (START_SEQ @ scenario_header @ scenario_record[3 := 0])) t) =
     Some (Inl ValidationError)"
proof -
  have "map_option fst (parse_frame_from_serial
      (line (START_SEQ @ scenario_header @ scenario_record[3 := 0] @ [])) t) =
     Some (Inl ValidationError)"
  proof (rule one_record_rejected)
    show "decode_body (scenario_record[3 := 0]) = Inl ValidationError"
      by (subst decode_body_eq) (simp_all add: scenario_record_def)
  qed (simp_all add: scenario_header_def scenario_record_def)
  then show ?thesis by simp
qed

text \<open>
  C6. \<^verbatim>\<open>find_start\<close> looks at the clock only when a read comes back empty. On a line that
  delivers a non-marker byte in every slot no read is empty, so the search never returns and
  neither does the decode, whatever the timeout. When the noise stops after 100 bytes, the
  search with timeout 1 returns \<^verbatim>\<open>False\<close> only at tick 101, at the first empty read.
\<close>

theorem C6_noise_outlasts_deadline:
  "find_start noise_line t = None \<and> parse_frame_from_serial noise_line t = None \<and>
   find_start (line (replicate 100 0)) 1 = Some (False, \<lparr>feed = sconst Idle, clock = 101\<rparr>)"
proof -
  have "find_start noise_line t = None"
    by (rule find_start_noise) (simp add: noise_line_def)
  moreover from this have "parse_frame_from_serial noise_line t = None"
    by (rule parse_diverges)
  moreover from find_start_late [of 1 100]
  have "find_start (line (replicate 100 0)) 1 = Some (False, \<lparr>feed = sconst Idle, clock = 101\<rparr>)"
    by simp
  ultimately show ?thesis by simp
qed

text \<open>
  C7. Once the marker has been found and the header and the body block have arrived in
  full, for each record \<open>j\<close> of the block: a tlv byte above 2 ends the call in
  \<^verbatim>\<open>ValidationError\<close> (no frame is decoded); and in every frame that is returned the
  \<open>tlv_signal\<close> of body \<open>j\<close> is 1 for the wire byte 0 and the wire byte itself otherwise, so 0
  decodes to 1 and 2 decodes to 2.
\<close>

theorem C7_tlv_signal_normalised:
  assumes "find_start ser t = Some (True, ser1)"
    and "feed ser1 = map Byte (hdr @ bb) @- s"
    and "length hdr = 8" and "length bb = unat (hdr ! 4) * 46"
    and "j < unat (hdr ! 4)"
  shows "(2 < uint (bb ! (j * 46)) \<longrightarrow>
            parse_frame_from_serial ser t =
              Some (Inl ValidationError,
                    ser1\<lparr>feed := s, clock := clock ser1 + (8 + unat (hdr ! 4) * 46)\<rparr>)) \<and>
         (\<forall>d i ser'. parse_frame_from_serial ser t = Some (Inr (Some (d, i)), ser') \<longrightarrow>
            tlv_signal (bodies d ! j) = (if bb ! (j * 46) = 0 then 1 else uint (bb ! (j * 46))) \<and>
            (bb ! (j * 46) = 0 \<longrightarrow> tlv_signal (bodies d ! j) = 1) \<and>
            (bb ! (j * 46) = 2 \<longrightarrow> tlv_signal (bodies d ! j) = 2))"
proof (intro conjI allI impI)
  assume "2 < uint (bb ! (j * 46))"
  then have "decode_body (take 46 (drop (j * 46) bb)) = Inl ValidationError"
    unfolding record_decode [OF assms(4,5)] by simp
  from parse_complete_bodies_error [OF assms(1,2,3,4,5) this]
  show "parse_frame_from_serial ser t =
      Some (Inl ValidationError,
            ser1\<lparr>feed := s, clock := clock ser1 + (8 + unat (hdr ! 4) * 46)\<rparr>)" .
next
  fix d i ser'
  assume p: "parse_frame_from_serial ser t = Some (Inr (Some (d, i)), ser')"
  let ?k = "unat (hdr ! 4)"
  let ?ser2 = "ser1\<lparr>feed := map Byte bb @- s, clock := clock ser1 + 8\<rparr>"
  have r1: "read_exact ser1 8 (Some t) = Some (hdr, ?ser2)"
    using assms(2,3) by (rule read_exact_prefix)
  have "feed ?ser2 = map Byte (bb @ []) @- s" by simp
  then have r2: "read_exact ?ser2 (?k * 46) (Some t) =
      Some (bb, ?ser2\<lparr>feed := map Byte [] @- s, clock := clock ?ser2 + ?k * 46\<rparr>)"
    using assms(4) by (rule read_exact_prefix)
  from parse_SomeD [OF p] assms(1) r1 r2
  have "decode_bodies ?k 0 bb [] = Inr (Some (bodies d))" by auto
  from decode_bodies_SomeD [OF this] assms(5)
  have "decode_body (take 46 (drop (j * 46) bb)) = Inr (bodies d ! j)" by auto
  from this [symmetric] have tlv: "tlv_signal (bodies d ! j) = (if bb ! (j * 46) = 0 then 1 else uint (bb ! (j * 46)))"
    unfolding record_decode [OF assms(4,5)] by (auto split: if_splits)
  then show "tlv_signal (bodies d ! j) = (if bb ! (j * 46) = 0 then 1 else uint (bb ! (j * 46)))" .
  from tlv show "tlv_signal (bodies d ! j) = 1" if "bb ! (j * 46) = 0" using that by simp
  from tlv show "tlv_signal (bodies d ! j) = 2" if "bb ! (j * 46) = 2" using that by simp
qed


theorem C7_tlv_signal_normalised_witness:
  "(\<exists>d i ser'. parse_frame_from_serial scenario_line 1 = Some (Inr (Some (d, i)), ser') \<and>
      tlv_signal (bodies d ! 0) = 1) \<and>
   (\<exists>d i ser'. parse_frame_from_serial
        (line (START_SEQ @ scenario_header @ scenario_record[0 := 2] @ scenario_footer)) 1
          = Some (Inr (Some (d, i)), ser') \<and>
      tlv_signal (bodies d ! 0) = 2) \<and>
   parse_frame_from_serial
        (line (START_SEQ @ scenario_header @ scenario_record[0 := 3] @ scenario_footer)) 1
     = Some (Inl ValidationError, \<lparr>feed = map Byte scenario_footer @- sconst Idle, clock = 58\<rparr>)"
proof -
  have c7: "(2 < uint a \<longrightarrow>
       parse_frame_from_serial
         (line (START_SEQ @ scenario_header @ scenario_record[0 := a] @ scenario_footer)) 1
       = Some (Inl ValidationError,
               \<lparr>feed = map Byte scenario_footer @- sconst Idle, clock = 58\<rparr>)) \<and>
     (\<forall>d i ser'. parse_frame_from_serial
         (line (START_SEQ @ scenario_header @ scenario_record[0 := a] @ scenario_footer)) 1
       = Some (Inr (Some (d, i)), ser') \<longrightarrow>
         (a = 0 \<longrightarrow> tlv_signal (bodies d ! 0) = 1) \<and>
         (a = 2 \<longrightarrow> tlv_signal (bodies d ! 0) = 2))" for a :: byte
  proof -
    let ?rec = "scenario_record[0 := a]"
    let ?ser1 = "\<lparr>feed = map Byte (scenario_header @ ?rec @ scenario_footer) @- sconst Idle,
                 clock = 4\<rparr>"
    have fs: "find_start (line (START_SEQ @ scenario_header @ ?rec @ scenario_footer)) 1
        = Some (True, ?ser1)"
      by (rule find_start_line)
    have feed: "feed ?ser1 = map Byte (scenario_header @ ?rec) @- (map Byte scenario_footer @- sconst Idle)"
      by (simp add: shift_append)
    have lb: "length ?rec = unat (scenario_header ! 4) * 46"
      by (simp add: scenario_header_facts scenario_record_def)
    have j: "0 < unat (scenario_header ! 4)" by (simp add: scenario_header_facts)
    have r: "?rec ! (0 * 46) = a" by (simp add: scenario_record_def)
    from C7_tlv_signal_normalised [OF fs feed scenario_header_facts(1) lb j]
    show ?thesis unfolding r scenario_header_facts(2) by (simp, blast)
  qed
  have same: "scenario_record[0 := 0] = scenario_record" by (simp add: scenario_record_def)
  have rec: "length (scenario_record[0 := a]) = 46" "uint (scenario_record[0 := a] ! 2) \<noteq> 128"
    "scenario_record[0 := a] ! 3 = 1 \<or> scenario_record[0 := a] ! 3 = 2"
    "scenario_record[0 := a] ! 0 = a" for a :: byte
    by (simp_all add: scenario_record_def)
  have ft: "length scenario_footer = 4" by (simp add: scenario_footer_def)
  have ok: "\<exists>d i ser'. parse_frame_from_serial
         (line (START_SEQ @ scenario_header @ scenario_record[0 := a] @ scenario_footer)) 1
       = Some (Inr (Some (d, i)), ser')" if "uint a \<le> 2" for a :: byte
    using that by (intro one_record_accepted rec ft) (simp add: rec)
  from ok [of 0] c7 [of 0] have first:
    "\<exists>d i ser'. parse_frame_from_serial scenario_line 1 = Some (Inr (Some (d, i)), ser') \<and>
      tlv_signal (bodies d ! 0) = 1"
    unfolding same scenario_line_def by fastforce
  from ok [of 2] c7 [of 2] have second:
    "\<exists>d i ser'. parse_frame_from_serial
        (line (START_SEQ @ scenario_header @ scenario_record[0 := 2] @ scenario_footer)) 1
          = Some (Inr (Some (d, i)), ser') \<and>
      tlv_signal (bodies d ! 0) = 2"
    by fastforce
  from c7 [of 3] have third: "parse_frame_from_serial
        (line (START_SEQ @ scenario_header @ scenario_record[0 := 3] @ scenario_footer)) 1
     = Some (Inl ValidationError, \<lparr>feed = map Byte scenario_footer @- sconst Idle, clock = 58\<rparr>)"
    by simp
  from first second third show ?thesis by blast
qed

text \<open>
  C8. As stated the claim fails: the scenario frame with the terminator bytes \<open>00 00\<close> is
  returned, but nothing in the result marks the mismatch. \<^verbatim>\<open>MircoCheck\<close> has the two fields
  \<open>crc\<close> and \<open>zw\<close>, and the returned dictionary has the six header keys and no
  \<open>checksum_invalid\<close>.
\<close>

theorem C8_no_checksum_invalid_flag:
  "(case map_option fst (parse_frame_from_serial
           (line (START_SEQ @ scenario_header @ scenario_record @ [0xAB, 0xCD, 0x00, 0x00])) 1) of
      Some (Inr (Some (d, i))) \<Rightarrow>
        check d = \<lparr>crc = [0xAB, 0xCD], zw = [0x00, 0x00]\<rparr> \<and>
        map fst i = [''data_length'', ''mode'', ''time_minutes'', ''num_targets'',
                     ''work_status'', ''reserve''] \<and>
        map_of i ''checksum_invalid'' = None
    | _ \<Rightarrow> False)"
proof -
  let ?cb = "[0xAB, 0xCD, 0x00, 0x00] :: byte list"
  let ?line = "line (START_SEQ @ scenario_header @ scenario_record @ ?cb)"
  let ?ser1 = "\<lparr>feed = map Byte (scenario_header @ scenario_record @ ?cb) @- sconst Idle,
               clock = 4\<rparr>"
  have fs: "find_start ?line 1 = Some (True, ?ser1)" by (rule find_start_line)
  have feed: "feed ?ser1 = map Byte (scenario_header @ scenario_record @ ?cb) @- sconst Idle"
    by simp
  have lb: "length scenario_record = unat (scenario_header ! 4) * 46"
    by (simp add: scenario_header_facts scenario_record_def)
  have v: "\<forall>j<unat (scenario_header ! 4). uint (scenario_record ! (j * 46)) \<le> 2 \<and>
       uint (scenario_record ! (j * 46 + 2)) \<noteq> 128 \<and>
       (scenario_record ! (j * 46 + 3) = 1 \<or> scenario_record ! (j * 46 + 3) = 2)"
    by (simp add: scenario_header_facts scenario_record_def)
  from parse_valid_frame [OF fs feed scenario_header_facts(1) lb _ scenario_header_facts(3,4) v]
  obtain d i ser' where "parse_frame_from_serial ?line 1 = Some (Inr (Some (d, i)), ser')"
    "check d = \<lparr>crc = [0xAB, 0xCD], zw = [0x00, 0x00]\<rparr>"
    "i = [(''data_length'', PyInt (uint (scenario_header ! 0))),
         (''mode'', PyInt (uint (scenario_header ! 1))),
         (''time_minutes'', PyInt (uint (scenario_header ! 2) + push_bit 8 (uint (scenario_header ! 3)))),
         (''num_targets'', PyInt (uint (scenario_header ! 4))),
         (''work_status'', PyInt (uint (scenario_header ! 5))),
         (''reserve'', PyList [uint (scenario_header ! 6), uint (scenario_header ! 7)])]"
    by force
  then show ?thesis by simp
qed

text \<open>
  C8, amended. Once the marker has been found, a complete frame whose header and records pass
  validation is returned whatever its four footer bytes are, in particular when the last two
  are not \<open>EE EE\<close>: \<open>check.crc\<close> and \<open>check.zw\<close> hold the footer bytes as they came, and the
  returned dictionary has the keys \<open>data_length\<close>, \<open>mode\<close>, \<open>time_minutes\<close>, \<open>num_targets\<close>,
  \<open>work_status\<close> and \<open>reserve\<close> and no other; no flag reports the terminator.
\<close>

theorem C8_footer_passed_through:
  assumes "find_start ser t = Some (True, ser1)"
    and "feed ser1 = map Byte (hdr @ bb @ cb) @- s"
    and "length hdr = 8" and "length bb = unat (hdr ! 4) * 46" and "length cb = 4"
    and "1 \<le> uint (hdr ! 5)" and "uint (hdr ! 5) \<le> 3"
    and "\<forall>j<unat (hdr ! 4). uint (bb ! (j * 46)) \<le> 2 \<and> uint (bb ! (j * 46 + 2)) \<noteq> 128 \<and>
          (bb ! (j * 46 + 3) = 1 \<or> bb ! (j * 46 + 3) = 2)"
  shows "\<exists>d i ser'. parse_frame_from_serial ser t = Some (Inr (Some (d, i)), ser') \<and>
     length (bodies d) = unat (hdr ! 4) \<and>
     crc (check d) = [uint (cb ! 0), uint (cb ! 1)] \<and>
     zw (check d) = [uint (cb ! 2), uint (cb ! 3)] \<and>
     map fst i = [''data_length'', ''mode'', ''time_minutes'', ''num_targets'',
                  ''work_status'', ''reserve'']"
proof -
  from parse_valid_frame [OF assms] obtain d i ser' where
    "parse_frame_from_serial ser t = Some (Inr (Some (d, i)), ser')"
    "length (bodies d) = unat (hdr ! 4)"
    "check d = \<lparr>crc = [uint (cb ! 0), uint (cb ! 1)], zw = [uint (cb ! 2), uint (cb ! 3)]\<rparr>"
    "i = [(''data_length'', PyInt (uint (hdr ! 0))),
         (''mode'', PyInt (uint (hdr ! 1))),
         (''time_minutes'', PyInt (uint (hdr ! 2) + push_bit 8 (uint (hdr ! 3)))),
         (''num_targets'', PyInt (uint (hdr ! 4))),
         (''work_status'', PyInt (uint (hdr ! 5))),
         (''reserve'', PyList [uint (hdr ! 6), uint (hdr ! 7)])]"
    by force
  then show ?thesis
    by (intro exI [of _ d] exI [of _ i] exI [of _ ser']) simp
qed

theorem C8_footer_passed_through_witness:
  "\<exists>d i ser'. parse_frame_from_serial
       (line (START_SEQ @ scenario_header @ scenario_record @ [0xAB, 0xCD, 0x00, 0x00])) 1
     = Some (Inr (Some (d, i)), ser') \<and>
     length (bodies d) = 1 \<and> crc (check d) = [0xAB, 0xCD] \<and> zw (check d) = [0x00, 0x00] \<and>
     map fst i = [''data_length'', ''mode'', ''time_minutes'', ''num_targets'',
                  ''work_status'', ''reserve'']"
proof -
  let ?cb = "[0xAB, 0xCD, 0x00, 0x00] :: byte list"
  let ?line = "line (START_SEQ @ scenario_header @ scenario_record @ ?cb)"
  let ?ser1 = "\<lparr>feed = map Byte (scenario_header @ scenario_record @ ?cb) @- sconst Idle,
               clock = 4\<rparr>"
  have fs: "find_start ?line 1 = Some (True, ?ser1)" by (rule find_start_line)
  have feed: "feed ?ser1 = map Byte (scenario_header @ scenario_record @ ?cb) @- sconst Idle"
    by simp
  have lb: "length scenario_record = unat (scenario_header ! 4) * 46"
    by (simp add: scenario_header_facts scenario_record_def)
  have lc: "length ?cb = 4" by simp
  have v: "\<forall>j<unat (scenario_header ! 4). uint (scenario_record ! (j * 46)) \<le> 2 \<and>
       uint (scenario_record ! (j * 46 + 2)) \<noteq> 128 \<and>
       (scenario_record ! (j * 46 + 3) = 1 \<or> scenario_record ! (j * 46 + 3) = 2)"
    by (simp add: scenario_header_facts scenario_record_def)
  from C8_footer_passed_through [OF fs feed scenario_header_facts(1) lb lc
      scenario_header_facts(3,4) v]
  show ?thesis by (simp add: scenario_header_facts)
qed


text \<open>
  C10. When the marker has been found and all eight header bytes arrive, but the work status
  byte (byte 5 of the block) is not 1, 2 or 3, the call ends without a frame whatever
  follows on the line. In particular, when a complete body block whose records pass
  validation and a complete footer follow, it is the construction of \<^verbatim>\<open>MircoHead\<close> that
  fails the decode, with \<^verbatim>\<open>ValidationError\<close>.
\<close>

theorem C10_bad_work_status_no_frame:
  assumes "find_start ser t = Some (True, ser1)"
    and "feed ser1 = map Byte hdr @- s"
    and "length hdr = 8"
    and "\<not> (1 \<le> uint (hdr ! 5) \<and> uint (hdr ! 5) \<le> 3)"
  shows "(\<exists>r ser'. parse_frame_from_serial ser t = Some (r, ser') \<and> (\<forall>f. r \<noteq> Inr (Some f))) \<and>
    (\<forall>bb cb s'. s = map Byte (bb @ cb) @- s' \<and> length bb = unat (hdr ! 4) * 46 \<and> length cb = 4 \<and>
       (\<forall>j<unat (hdr ! 4). uint (bb ! (j * 46)) \<le> 2 \<and> uint (bb ! (j * 46 + 2)) \<noteq> 128 \<and>
          (bb ! (j * 46 + 3) = 1 \<or> bb ! (j * 46 + 3) = 2)) \<longrightarrow>
       parse_frame_from_serial ser t =
         Some (Inl ValidationError,
               ser1\<lparr>feed := s', clock := clock ser1 + (8 + unat (hdr ! 4) * 46 + 4)\<rparr>))"
proof (intro conjI allI impI)
  from assms(2) have "feed ser1 = map Byte (hdr @ []) @- s" by simp
  then have r1: "read_exact ser1 8 (Some t) =
      Some (hdr, ser1\<lparr>feed := map Byte [] @- s, clock := clock ser1 + 8\<rparr>)"
    using assms(3) by (rule read_exact_prefix)
  from parse_total [OF assms(1)] obtain r ser' where p: "parse_frame_from_serial ser t = Some (r, ser')"
    by blast
  have "r \<noteq> Inr (Some f)" for f
    using parse_bad_work_con_no_frame [OF assms(1) r1 assms(4), of "fst f" "snd f" ser'] p
    by auto
  with p show "\<exists>r ser'. parse_frame_from_serial ser t = Some (r, ser') \<and> (\<forall>f. r \<noteq> Inr (Some f))"
    by blast
next
  fix bb cb s'
  assume a: "s = map Byte (bb @ cb) @- s' \<and> length bb = unat (hdr ! 4) * 46 \<and> length cb = 4 \<and>
       (\<forall>j<unat (hdr ! 4). uint (bb ! (j * 46)) \<le> 2 \<and> uint (bb ! (j * 46 + 2)) \<noteq> 128 \<and>
          (bb ! (j * 46 + 3) = 1 \<or> bb ! (j * 46 + 3) = 2))"
  then have lb: "length bb = unat (hdr ! 4) * 46" and lc: "length cb = 4" by simp_all
  from a assms(2) have feed: "feed ser1 = map Byte (hdr @ bb @ cb) @- s'"
    by (simp add: shift_append)
  have recs: "\<forall>j<unat (hdr ! 4). \<exists>b. decode_body (take 46 (drop (j * 46) bb)) = Inr b"
  proof (intro allI impI)
    fix j assume j: "j < unat (hdr ! 4)"
    with a show "\<exists>b. decode_body (take 46 (drop (j * 46) bb)) = Inr b"
      unfolding record_decode [OF lb j] by simp
  qed
  from assms(1) feed assms(3) lb lc assms(4) recs
  show "parse_frame_from_serial ser t =
         Some (Inl ValidationError,
               ser1\<lparr>feed := s', clock := clock ser1 + (8 + unat (hdr ! 4) * 46 + 4)\<rparr>)"
    by (rule parse_complete_header_error)
qed

theorem C10_bad_work_status_no_frame_witness:
  "(\<exists>r ser'. parse_frame_from_serial
       (line (START_SEQ @ scenario_header[5 := 0] @ scenario_record @ scenario_footer)) 1
         = Some (r, ser') \<and> (\<forall>f. r \<noteq> Inr (Some f))) \<and>
   parse_frame_from_serial
       (line (START_SEQ @ scenario_header[5 := 0] @ scenario_record @ scenario_footer)) 1
     = Some (Inl ValidationError, \<lparr>feed = sconst Idle, clock = 62\<rparr>)"
proof -
  let ?hdr = "scenario_header[5 := 0]"
  let ?line = "line (START_SEQ @ ?hdr @ scenario_record @ scenario_footer)"
  let ?s = "map Byte (scenario_record @ scenario_footer) @- sconst Idle"
  let ?ser1 = "\<lparr>feed = map Byte (?hdr @ scenario_record @ scenario_footer) @- sconst Idle,
               clock = 4\<rparr>"
  have fs: "find_start ?line 1 = Some (True, ?ser1)" by (rule find_start_line)
  have feed: "feed ?ser1 = map Byte ?hdr @- ?s" by (simp add: shift_append)
  have lh: "length ?hdr = 8" by (simp add: scenario_header_def)
  have wc: "\<not> (1 \<le> uint (?hdr ! 5) \<and> uint (?hdr ! 5) \<le> 3)" by (simp add: scenario_header_def)
  have k: "unat (?hdr ! 4) = 1" by (simp add: scenario_header_def)
  have v: "\<forall>j<unat (?hdr ! 4). uint (scenario_record ! (j * 46)) \<le> 2 \<and>
       uint (scenario_record ! (j * 46 + 2)) \<noteq> 128 \<and>
       (scenario_record ! (j * 46 + 3) = 1 \<or> scenario_record ! (j * 46 + 3) = 2)"
    unfolding k by (simp add: scenario_record_def)
  have l: "length scenario_record = unat (?hdr ! 4) * 46" "length scenario_footer = 4"
    unfolding k by (simp_all add: scenario_record_def scenario_footer_def)
  note c10 = C10_bad_work_status_no_frame [OF fs feed lh wc]
  from c10 have first: "\<exists>r ser'. parse_frame_from_serial ?line 1 = Some (r, ser') \<and>
      (\<forall>f. r \<noteq> Inr (Some f))"
    by (rule conjunct1)
  from c10 have "?s = map Byte (scenario_record @ scenario_footer) @- sconst Idle \<and>
       length scenario_record = unat (?hdr ! 4) * 46 \<and> length scenario_footer = 4 \<and>
       (\<forall>j<unat (?hdr ! 4). uint (scenario_record ! (j * 46)) \<le> 2 \<and>
          uint (scenario_record ! (j * 46 + 2)) \<noteq> 128 \<and>
          (scenario_record ! (j * 46 + 3) = 1 \<or> scenario_record ! (j * 46 + 3) = 2)) \<longrightarrow>
       parse_frame_from_serial ?line 1 =
         Some (Inl ValidationError,
               ?ser1\<lparr>feed := sconst Idle, clock := clock ?ser1 + (8 + unat (?hdr ! 4) * 46 + 4)\<rparr>)"
    by blast
  with v l have "parse_frame_from_serial ?line 1 =
         Some (Inl ValidationError,
               ?ser1\<lparr>feed := sconst Idle, clock := clock ?ser1 + (8 + unat (?hdr ! 4) * 46 + 4)\<rparr>)"
    by blast
  then have "parse_frame_from_serial ?line 1 =
      Some (Inl ValidationError, \<lparr>feed = sconst Idle, clock = 62\<rparr>)"
    unfolding k by simp
  with first show ?thesis by (rule conjI)
qed

end
